theory Spec2Isabelle
  imports Main "HOL-Library.Sublist"
begin

section \<open>Values and built-ins of the page\<close>

text \<open>
  The interceptor (\<^verbatim>\<open>src/index.ts\<close>) patches the page's \<^verbatim>\<open>XMLHttpRequest.prototype.open\<close>,
  \<^verbatim>\<open>XMLHttpRequest.prototype.send\<close> and \<^verbatim>\<open>fetch\<close>. Its own code is embedded below function by
  function. What it calls but does not define (the URL constructor, \<^verbatim>\<open>JSON.parse\<close>,
  \<^verbatim>\<open>RegExp.prototype.test\<close>, the native transports, \<^verbatim>\<open>location.origin\<close>) is a field of the
  record \<open>page\<close>, so every theorem that quantifies over the page holds for any behaviour of
  those built-ins.
\<close>

datatype jsval =
    JUndefined
  | JNull
  | JBool bool
  | JNum int
  | JStr string
  | JArr "jsval list"
  | JObj "(string \<times> jsval) list"

text \<open>JavaScript truthiness, as used by \<^verbatim>\<open>if (newBody)\<close> and \<^verbatim>\<open>if (result.data)\<close>.\<close>

fun truthy :: "jsval \<Rightarrow> bool" where
  "truthy JUndefined = False"
| "truthy JNull = False"
| "truthy (JBool b) = b"
| "truthy (JNum n) = (n \<noteq> 0)"
| "truthy (JStr s) = (s \<noteq> [])"
| "truthy (JArr xs) = True"
| "truthy (JObj ps) = True"

text \<open>\<^verbatim>\<open>String.prototype.toLowerCase\<close> on ASCII text (header names, methods, schemes).\<close>

definition lower_char :: "char \<Rightarrow> char" where
  "lower_char c =
     (case map_of (zip ''ABCDEFGHIJKLMNOPQRSTUVWXYZ'' ''abcdefghijklmnopqrstuvwxyz'') c of
        Some l \<Rightarrow> l
      | None \<Rightarrow> c)"

definition toLowerCase :: "string \<Rightarrow> string" where
  "toLowerCase s = map lower_char s"

definition startsWith :: "string \<Rightarrow> string \<Rightarrow> bool" where
  "startsWith s p = prefix p s"

subsection \<open>\<^verbatim>\<open>JSON.stringify\<close>\<close>

text \<open>
  \<^verbatim>\<open>JSON.stringify\<close> on the values above: \<open>None\<close> stands for the result \<^verbatim>\<open>undefined\<close>
  (the serialisation of \<^verbatim>\<open>undefined\<close> itself); inside an array \<^verbatim>\<open>undefined\<close> is written
  \<^verbatim>\<open>null\<close>, inside an object the property is left out. A string is quoted, with the
  quote, the backslash and the control characters escaped.
\<close>

definition hex_digit :: "nat \<Rightarrow> char" where
  "hex_digit n = ''0123456789abcdef'' ! (n mod 16)"

definition escape_char :: "char \<Rightarrow> string" where
  "escape_char c =
     (if c = CHR 0x22 then [CHR 0x5C, CHR 0x22]
      else if c = CHR 0x5C then [CHR 0x5C, CHR 0x5C]
      else if c = CHR 0x08 then [CHR 0x5C, CHR ''b'']
      else if c = CHR 0x0C then [CHR 0x5C, CHR ''f'']
      else if c = CHR 0x0A then [CHR 0x5C, CHR ''n'']
      else if c = CHR 0x0D then [CHR 0x5C, CHR ''r'']
      else if c = CHR 0x09 then [CHR 0x5C, CHR ''t'']
      else if (of_char c :: nat) < 32
        then [CHR 0x5C, CHR ''u'', CHR ''0'', CHR ''0'',
              hex_digit (of_char c div 16), hex_digit (of_char c)]
      else [c])"

definition quote :: "string \<Rightarrow> string" where
  "quote s = CHR 0x22 # concat (map escape_char s) @ [CHR 0x22]"

function show_nat :: "nat \<Rightarrow> string" where
  "show_nat n =
     (if n < 10 then [hex_digit n] else show_nat (n div 10) @ [hex_digit (n mod 10)])"
  by pat_completeness auto
termination
  by (relation "measure id") auto

declare show_nat.simps [simp del]

definition show_int :: "int \<Rightarrow> string" where
  "show_int i = (if i < 0 then CHR ''-'' # show_nat (nat (- i)) else show_nat (nat i))"

fun join :: "string list \<Rightarrow> string" where
  "join [] = []"
| "join [x] = x"
| "join (x # y # ys) = x @ CHR '','' # join (y # ys)"

fun stringify :: "jsval \<Rightarrow> string option" where
  "stringify JUndefined = None"
| "stringify JNull = Some ''null''"
| "stringify (JBool b) = Some (if b then ''true'' else ''false'')"
| "stringify (JNum n) = Some (show_int n)"
| "stringify (JStr s) = Some (quote s)"
| "stringify (JArr xs) =
     Some (CHR ''['' #
       join (map (\<lambda>x. case stringify x of None \<Rightarrow> ''null'' | Some t \<Rightarrow> t) xs) @ '']'')"
| "stringify (JObj ps) =
     Some (CHR ''{'' #
       join (concat (map (\<lambda>p. case stringify (snd p) of
                                None \<Rightarrow> []
                              | Some t \<Rightarrow> [quote (fst p) @ CHR '':'' # t]) ps)) @ ''}'')"

definition JSON_stringify :: "jsval \<Rightarrow> jsval" where
  "JSON_stringify v = (case stringify v of None \<Rightarrow> JUndefined | Some s \<Rightarrow> JStr s)"

subsection \<open>The data of \<^verbatim>\<open>types.ts\<close>\<close>

text \<open>
  A \<^verbatim>\<open>URL\<close> object, reduced to the three components the matcher compares and the
  serialisation \<^verbatim>\<open>toString()\<close> returns.
\<close>

record URL =
  protocol :: string
  host :: string
  pathname :: string
  href :: string

text \<open>
  \<^verbatim>\<open>url: string | RegExp\<close>. A regular expression is an object: \<open>Pattern r\<close> holds its
  reference \<open>r\<close>, so that \<^verbatim>\<open>===\<close> on two patterns compares references, and the page
  says what the pattern at a reference accepts.
\<close>

datatype target = Literal string | Pattern nat

record IRequestInfo =
  req_url :: URL
  req_data :: jsval

text \<open>\<^verbatim>\<open>IPreCallbackResult = [boolean, { uri?: string; data?: any }]\<close>, with the uri given.\<close>

record replacement =
  new_uri :: string
  new_data :: jsval

text \<open>\<^verbatim>\<open>BeforeSendCallBackResult = { url?: URL; data?: any } | void\<close>: \<open>None\<close> is void.\<close>

record BeforeSendCallBackResult =
  bs_url :: "URL option"
  bs_data :: jsval

text \<open>
  \<^verbatim>\<open>InjectConfig\<close>. Hooks are pure functions of their arguments (their awaited results);
  \<open>callback\<close> only records whether the rule has one, since its result is discarded.
  The field \<^verbatim>\<open>method\<close> is named \<open>cf_method\<close>.
\<close>

record InjectConfig =
  url :: target
  cf_method :: string
  callback :: bool
  preCallback :: "(jsval \<Rightarrow> IRequestInfo \<Rightarrow> bool \<times> replacement) option"
  lastCallback :: "(jsval \<Rightarrow> IRequestInfo \<Rightarrow> jsval) option"
  beforeSendCallback :: "(IRequestInfo \<Rightarrow> BeforeSendCallBackResult option) option"

text \<open>
  \<^verbatim>\<open>XMLHttpRequestProxy\<close>, and the fields of an \<^verbatim>\<open>XMLHttpRequest\<close> a handler can read:
  the same seven plus \<^verbatim>\<open>responseURL\<close>. \<open>responseText\<close> is a \<open>jsval\<close> because the code
  assigns it the result of \<^verbatim>\<open>JSON.stringify\<close>, which may be \<^verbatim>\<open>undefined\<close>. On a native
  object \<^verbatim>\<open>responseText\<close> and \<^verbatim>\<open>responseXML\<close> are getters that throw for some values of
  \<^verbatim>\<open>responseType\<close>; \<open>text_redefined\<close> tells that \<^verbatim>\<open>responseText\<close> is no longer the native
  getter but a property of the object itself (\<^verbatim>\<open>Object.defineProperties\<close>, lines 165-173
  and 194-197, or a plain object).
\<close>

record XMLHttpRequestProxy =
  status :: nat
  response :: jsval
  statusText :: string
  responseType :: string
  responseText :: jsval
  responseXML :: jsval
  readyState :: nat

record XMLHttpRequest = XMLHttpRequestProxy +
  responseURL :: string
  text_redefined :: bool

text \<open>What the native \<^verbatim>\<open>open\<close>, \<^verbatim>\<open>setRequestHeader\<close> and \<^verbatim>\<open>send\<close> have been given.\<close>

record request =
  rq_method :: string
  rq_url :: string
  rq_headers :: "(string \<times> string) list"
  rq_body :: jsval

text \<open>The arguments and the result of \<^verbatim>\<open>fetch\<close>.\<close>

datatype fetch_input = InString string | InURL URL | InRequest string

record RequestInit =
  init_method :: "string option"
  init_body :: jsval

record Response =
  resp_url :: string
  resp_status :: nat
  resp_statusText :: string
  resp_headers :: "(string \<times> string) list"
  resp_body :: string

text \<open>
  The page: \<open>new_URL\<close> is the URL constructor without a base (\<open>None\<close> when it throws),
  \<open>JSON_parse\<close> likewise; \<open>RegExp_test r u\<close> is \<^verbatim>\<open>r.test(u)\<close> for a pattern without the
  global or sticky flag; \<open>native_XHR\<close> gives, for a request sent natively, the
  \<^verbatim>\<open>readystatechange\<close> events that follow, each as the fields readable at that event;
  \<open>native_fetch\<close> gives the response the native promise resolves to (\<open>None\<close> when it
  rejects).
\<close>

record page =
  location_origin :: string
  new_URL :: "string \<Rightarrow> URL option"
  JSON_parse :: "string \<Rightarrow> jsval option"
  RegExp_test :: "nat \<Rightarrow> string \<Rightarrow> bool"
  native_XHR :: "request \<Rightarrow> XMLHttpRequest list"
  native_fetch :: "fetch_input \<Rightarrow> RequestInit option \<Rightarrow> Response option"

section \<open>The matcher\<close>

text \<open>\<^verbatim>\<open>genUrl\<close>: a leading slash is resolved against the page's origin.\<close>

definition genUrl :: "page \<Rightarrow> string \<Rightarrow> URL option" where
  "genUrl pg u =
     (if startsWith u ''/'' then new_URL pg (location_origin pg @ u) else new_URL pg u)"

text \<open>
  \<^verbatim>\<open>isTargetUrl\<close>: a pattern is tested on the URL as given; a string target is compared
  by host, protocol and pathname after both strings went through the URL constructor, and
  the \<^verbatim>\<open>catch\<close> turns a failure of either into \<^verbatim>\<open>false\<close>.
\<close>

definition isTargetUrl :: "page \<Rightarrow> string \<Rightarrow> target \<Rightarrow> bool" where
  "isTargetUrl pg u targetUrl =
     (case targetUrl of
        Pattern r \<Rightarrow> RegExp_test pg r u
      | Literal t \<Rightarrow>
          (case new_URL pg u of
             None \<Rightarrow> False
           | Some urlObj \<Rightarrow>
               (case new_URL pg t of
                  None \<Rightarrow> False
                | Some targetUrlObj \<Rightarrow>
                    host urlObj = host targetUrlObj \<and>
                    protocol urlObj = protocol targetUrlObj \<and>
                    pathname urlObj = pathname targetUrlObj)))"

text \<open>\<^verbatim>\<open>isMethodEqual\<close>: \<open>None\<close> is an \<^verbatim>\<open>undefined\<close> method, which equals no target method.\<close>

definition isMethodEqual :: "string option \<Rightarrow> string \<Rightarrow> bool" where
  "isMethodEqual m targetMethod =
     (case m of None \<Rightarrow> False | Some s \<Rightarrow> toLowerCase s = toLowerCase targetMethod)"

text \<open>
  The test every loop over the rules makes: \<^verbatim>\<open>isTargetUrl(u, config.url) && isMethodEqual(m,
  config.method)\<close> (the completion handler writes its negation before \<^verbatim>\<open>continue\<close>).
\<close>

definition matches :: "page \<Rightarrow> string \<Rightarrow> string option \<Rightarrow> InjectConfig \<Rightarrow> bool" where
  "matches pg u m config = (isTargetUrl pg u (url config) \<and> isMethodEqual m (cf_method config))"

text \<open>
  Reading \<^verbatim>\<open>xhr.responseText\<close> and \<^verbatim>\<open>xhr.responseXML\<close>: the native getter of
  \<^verbatim>\<open>responseText\<close> throws an \<^verbatim>\<open>InvalidStateError\<close> unless \<^verbatim>\<open>responseType\<close> is empty or
  \<^verbatim>\<open>text\<close>, that of \<^verbatim>\<open>responseXML\<close> unless it is empty or \<^verbatim>\<open>document\<close>; \<open>None\<close> is that
  exception. \<^verbatim>\<open>response\<close> can always be read.
\<close>

definition read_responseText :: "XMLHttpRequest \<Rightarrow> jsval option" where
  "read_responseText xhr =
     (if text_redefined xhr \<or> responseType xhr = [] \<or> responseType xhr = ''text''
      then Some (responseText xhr) else None)"

definition read_responseXML :: "XMLHttpRequest \<Rightarrow> jsval option" where
  "read_responseXML xhr =
     (if responseType xhr = [] \<or> responseType xhr = ''document''
      then Some (responseXML xhr) else None)"

text \<open>\<^verbatim>\<open>getResponseData\<close> (line 340); \<open>None\<close> when the read of \<^verbatim>\<open>responseText\<close> throws.\<close>

definition getResponseData :: "XMLHttpRequest \<Rightarrow> jsval option" where
  "getResponseData xhr =
     (if responseType xhr = ''json'' then Some (response xhr) else read_responseText xhr)"

text \<open>
  \<^verbatim>\<open>proxy as XMLHttpRequest\<close>: the proxy is a plain object, its \<^verbatim>\<open>responseText\<close> an ordinary
  property and its \<^verbatim>\<open>responseURL\<close> absent.
\<close>

definition as_XMLHttpRequest :: "XMLHttpRequestProxy \<Rightarrow> XMLHttpRequest" where
  "as_XMLHttpRequest proxy =
     \<lparr>status = status proxy, response = response proxy, statusText = statusText proxy,
      responseType = responseType proxy, responseText = responseText proxy,
      responseXML = responseXML proxy, readyState = readyState proxy,
      responseURL = [], text_redefined = True\<rparr>"

section \<open>The registry and the session\<close>

text \<open>\<^verbatim>\<open>InjectConfig | InjectConfig[]\<close> and \<^verbatim>\<open>Array.isArray(options) ? options : [options]\<close>.\<close>

datatype options = One InjectConfig | Many "InjectConfig list"

fun toArray :: "options \<Rightarrow> InjectConfig list" where
  "toArray (One c) = [c]"
| "toArray (Many cs) = cs"

text \<open>
  \<^verbatim>\<open>addConfig\<close>, on the array: each new rule is pushed unless some rule already there
  (one pushed earlier in the same batch included) has the same \<^verbatim>\<open>url\<close> and \<^verbatim>\<open>method\<close>
  under \<^verbatim>\<open>===\<close>.
\<close>

definition isExist :: "InjectConfig list \<Rightarrow> InjectConfig \<Rightarrow> bool" where
  "isExist cfs newCf = list_ex (\<lambda>cf. url cf = url newCf \<and> cf_method cf = cf_method newCf) cfs"

fun addConfig :: "InjectConfig list \<Rightarrow> InjectConfig list \<Rightarrow> InjectConfig list" where
  "addConfig cfs [] = cfs"
| "addConfig cfs (newCf # rest) =
     addConfig (if isExist cfs newCf then cfs else cfs @ [newCf]) rest"

text \<open>
  A function value held by one of the three patched entry points: a function of the
  host (or of another script) named by a tag, one of the wrappers \<^verbatim>\<open>hijackXHR\<close> and
  \<^verbatim>\<open>hijackFetch\<close> install (closed over the interceptor at the given reference), or
  \<^verbatim>\<open>undefined\<close>.
\<close>

datatype fn = HostFn nat | HijackedOpen nat | HijackedSend nat | HijackedFetch nat | Undefined

record Interceptor =
  interceptConfigs :: "InjectConfig list"
  originalXHRopen :: fn
  originalXHRsend :: fn
  originalFetch :: fn

text \<open>
  The module's state: the static flag, the module variable \<^verbatim>\<open>INSTANCE\<close>, the interceptor
  objects allocated so far (a reference is an index), the three entry points and the
  console.
\<close>

record world =
  isHijacked :: bool
  INSTANCE :: "nat option"
  objects :: "Interceptor list"
  XHR_open :: fn
  XHR_send :: fn
  window_fetch :: fn
  console :: "string list"

definition warning :: string where
  "warning = ''XHRAndFetchInterceptor: Already activated, avoid duplicate interception.''"

text \<open>The object \<^verbatim>\<open>new\<close> allocates before the constructor's body runs.\<close>

definition blank :: Interceptor where
  "blank = \<lparr>interceptConfigs = [], originalXHRopen = Undefined,
            originalXHRsend = Undefined, originalFetch = Undefined\<rparr>"

text \<open>\<^verbatim>\<open>INSTANCE.addConfig(options)\<close> on the object at reference \<open>i\<close>.\<close>

definition addConfig_at :: "nat \<Rightarrow> options \<Rightarrow> world \<Rightarrow> world" where
  "addConfig_at i opts w =
     w\<lparr>objects := (objects w)
          [i := (objects w ! i)\<lparr>interceptConfigs :=
                  addConfig (interceptConfigs (objects w ! i)) (toArray opts)\<rparr>]\<rparr>"

text \<open>
  \<^verbatim>\<open>new XHRAndFetchInterceptor(options)\<close>: the new world and the reference the
  expression evaluates to (the object a \<^verbatim>\<open>return\<close> names, else the fresh one).
\<close>

definition constructor :: "options \<Rightarrow> world \<Rightarrow> world \<times> nat" where
  "constructor opts w =
     (let this = length (objects w);
          w0 = w\<lparr>objects := objects w @ [blank]\<rparr>
      in if isHijacked w then
           (case INSTANCE w of
              Some i \<Rightarrow> (addConfig_at i opts w0, i)
            | None \<Rightarrow> (w0\<lparr>console := console w0 @ [warning]\<rparr>, this))
         else
           (w0\<lparr>objects := (objects w0)
                  [this := \<lparr>interceptConfigs = toArray opts,
                            originalXHRopen = XHR_open w,
                            originalXHRsend = XHR_send w,
                            originalFetch = window_fetch w\<rparr>],
               XHR_open := HijackedOpen this,
               XHR_send := HijackedSend this,
               window_fetch := HijackedFetch this,
               isHijacked := True,
               INSTANCE := Some this\<rparr>, this))"

text \<open>\<^verbatim>\<open>restore()\<close> on the object at reference \<open>i\<close>.\<close>

definition restore :: "nat \<Rightarrow> world \<Rightarrow> world" where
  "restore i w =
     w\<lparr>XHR_open := originalXHRopen (objects w ! i),
       XHR_send := originalXHRsend (objects w ! i),
       window_fetch := originalFetch (objects w ! i)\<rparr>"

section \<open>The legacy transport\<close>

text \<open>
  The request side of one \<^verbatim>\<open>XMLHttpRequestWithUrl\<close> object: the fields the wrappers add
  (\<^verbatim>\<open>uri\<close>, \<^verbatim>\<open>method\<close> as \<open>xhr_method\<close>, and \<^verbatim>\<open>_requestHeaders\<close> as \<open>requestHeaders\<close>,
  a \<^verbatim>\<open>Map\<close> kept as the list of its entries in insertion order; it is \<open>None\<close> until
  \<^verbatim>\<open>setRequestHeader\<close> has been wrapped), what the native object has been told
  (\<open>native_target\<close>: the method and URL of the last native \<^verbatim>\<open>open\<close>; \<open>native_headers\<close>: the
  native \<^verbatim>\<open>setRequestHeader\<close> calls since), and whether the caller has assigned
  \<^verbatim>\<open>onreadystatechange\<close>. The response side of the object is an \<open>XMLHttpRequest\<close> record:
  the fields a read returns at the moment of an event.
\<close>

record XMLHttpRequestWithUrl =
  uri :: "string option"
  xhr_method :: "string option"
  requestHeaders :: "(string \<times> string \<times> string) list option"
  native_target :: "(string \<times> string) option"
  native_headers :: "(string \<times> string) list"
  onreadystatechange :: bool

definition new_XMLHttpRequest :: XMLHttpRequestWithUrl where
  "new_XMLHttpRequest =
     \<lparr>uri = None, xhr_method = None, requestHeaders = None, native_target = None,
      native_headers = [], onreadystatechange = False\<rparr>"

text \<open>
  The native \<^verbatim>\<open>open\<close> (\<^verbatim>\<open>self.originalXHRopen.apply(this, ...)\<close>) starts a new request,
  which has no headers yet; the native \<^verbatim>\<open>setRequestHeader\<close> adds one.
\<close>

definition originalXHRopen_apply ::
  "string \<Rightarrow> string \<Rightarrow> XMLHttpRequestWithUrl \<Rightarrow> XMLHttpRequestWithUrl" where
  "originalXHRopen_apply m u this = this\<lparr>native_target := Some (m, u), native_headers := []\<rparr>"

definition originalSetRequestHeader ::
  "string \<Rightarrow> string \<Rightarrow> XMLHttpRequestWithUrl \<Rightarrow> XMLHttpRequestWithUrl" where
  "originalSetRequestHeader name v this = this\<lparr>native_headers := native_headers this @ [(name, v)]\<rparr>"

text \<open>
  \<^verbatim>\<open>Map.prototype.set\<close>: an existing key keeps its place and gets the new value, a new key
  goes last.
\<close>

fun Map_set :: "'k \<Rightarrow> 'v \<Rightarrow> ('k \<times> 'v) list \<Rightarrow> ('k \<times> 'v) list" where
  "Map_set k v [] = [(k, v)]"
| "Map_set k v ((k', v') # rest) = (if k' = k then (k, v) # rest else (k', v') # Map_set k v rest)"

text \<open>
  The wrapper installed on \<^verbatim>\<open>XMLHttpRequest.prototype.open\<close> (lines 52-74): it records the
  URL and the method, wraps \<^verbatim>\<open>setRequestHeader\<close> on the first call only, and delegates.
\<close>

definition xhr_open :: "string \<Rightarrow> string \<Rightarrow> XMLHttpRequestWithUrl \<Rightarrow> XMLHttpRequestWithUrl" where
  "xhr_open m u this =
     originalXHRopen_apply m u
       (this\<lparr>uri := Some u, xhr_method := Some m,
             requestHeaders := (case requestHeaders this of None \<Rightarrow> Some [] | Some hs \<Rightarrow> Some hs)\<rparr>)"

text \<open>
  \<^verbatim>\<open>this.setRequestHeader(name, value)\<close> as a caller reaches it: the wrapped version
  (lines 68-71) once \<^verbatim>\<open>open\<close> has run, the native one before.
\<close>

definition setRequestHeader ::
  "string \<Rightarrow> string \<Rightarrow> XMLHttpRequestWithUrl \<Rightarrow> XMLHttpRequestWithUrl" where
  "setRequestHeader name v this =
     (case requestHeaders this of
        None \<Rightarrow> originalSetRequestHeader name v this
      | Some hs \<Rightarrow>
          originalSetRequestHeader name v
            (this\<lparr>requestHeaders := Some (Map_set (toLowerCase name) (name, v) hs)\<rparr>))"

text \<open>
  What a run of the wrappers does that can be seen from outside, in the order it happens:
  \<open>Call i h d\<close> is the call of hook \<open>h\<close> of the rule at index \<open>i\<close> of the registry (with the
  request body for \<open>BeforeSend\<close>, the response data for the others), \<open>Fire f\<close> is a call
  of the handler the caller had assigned to \<^verbatim>\<open>onreadystatechange\<close>, with \<open>f\<close> the fields it
  reads from the object it is given, and \<open>Throw\<close> is an exception that ends the
  asynchronous function it is raised in (the promise is rejected and nothing later in that
  function runs).
\<close>

datatype hook = BeforeSend | Pre | Primary | Last

datatype item = Call nat hook jsval | Fire XMLHttpRequest | Throw

text \<open>
  \<^verbatim>\<open>this.method!\<close> passed on as a string, and \<^verbatim>\<open>requestUrl\<close> of line 98. An
  \<^verbatim>\<open>undefined\<close> value reaches the URL constructor and the native \<^verbatim>\<open>open\<close> as the text
  \<^verbatim>\<open>undefined\<close>.
\<close>

definition the_method :: "XMLHttpRequestWithUrl \<Rightarrow> string" where
  "the_method this = (case xhr_method this of Some m \<Rightarrow> m | None \<Rightarrow> ''undefined'')"

definition requestUrl :: "page \<Rightarrow> XMLHttpRequestWithUrl \<Rightarrow> string" where
  "requestUrl pg this =
     (case uri this of
        Some u \<Rightarrow> if startsWith u ''/'' then location_origin pg @ u else u
      | None \<Rightarrow> ''undefined'')"

text \<open>
  Lines 111-121: \<^verbatim>\<open>this.uri = newUrl.toString()\<close>, a copy of the header map, the native
  \<^verbatim>\<open>open\<close> with the new URL, and \<^verbatim>\<open>this.setRequestHeader\<close> for every saved header whose
  lower-cased name is not \<^verbatim>\<open>content-length\<close>. A header is an entry of the map: the key, the
  name as given and the value.
\<close>

definition reapply :: "string \<times> string \<times> string \<Rightarrow> XMLHttpRequestWithUrl \<Rightarrow> XMLHttpRequestWithUrl" where
  "reapply header this =
     (if toLowerCase (fst (snd header)) \<noteq> ''content-length''
      then setRequestHeader (fst (snd header)) (snd (snd header)) this
      else this)"

definition reopen :: "URL \<Rightarrow> XMLHttpRequestWithUrl \<Rightarrow> XMLHttpRequestWithUrl" where
  "reopen newUrl this =
     (let savedHeaders = (case requestHeaders this of None \<Rightarrow> [] | Some hs \<Rightarrow> hs)
      in fold reapply savedHeaders
           (originalXHRopen_apply (the_method this) (href newUrl) (this\<lparr>uri := Some (href newUrl)\<rparr>)))"

text \<open>
  The loop of lines 101-126 over the rules from index \<open>i\<close> on. Only the first matching rule
  is looked at (\<^verbatim>\<open>break\<close>). The result is the trace and, unless \<^verbatim>\<open>new URL(requestUrl)\<close>
  threw, the object and the body to send.
\<close>

fun beforeSend ::
  "page \<Rightarrow> nat \<Rightarrow> InjectConfig list \<Rightarrow> XMLHttpRequestWithUrl \<Rightarrow> jsval \<Rightarrow>
     item list \<times> (XMLHttpRequestWithUrl \<times> jsval) option" where
  "beforeSend pg i [] this body = ([], Some (this, body))"
| "beforeSend pg i (config # rest) this body =
     (if matches pg (requestUrl pg this) (xhr_method this) config then
        (case beforeSendCallback config of
           None \<Rightarrow> ([], Some (this, body))
         | Some cb \<Rightarrow>
             (case new_URL pg (requestUrl pg this) of
                None \<Rightarrow> ([Throw], None)
              | Some u \<Rightarrow>
                  (let result = cb \<lparr>req_url = u, req_data = body\<rparr>;
                       newBody = (case result of None \<Rightarrow> JUndefined | Some r \<Rightarrow> bs_data r);
                       newUrl = (case result of None \<Rightarrow> None | Some r \<Rightarrow> bs_url r)
                   in ([Call i BeforeSend body],
                       Some (case newUrl of None \<Rightarrow> this | Some nu \<Rightarrow> reopen nu this,
                             if truthy newBody then newBody else body)))))
      else beforeSend pg (Suc i) rest this body)"

text \<open>
  Lines 185-198 for one matching rule, on the fields \<open>this\<close> readable at that moment:
  \<^verbatim>\<open>getResponseData(this)\<close>, which is evaluated whatever hooks the rule has and may throw,
  then \<^verbatim>\<open>callback\<close>, then \<^verbatim>\<open>lastCallback\<close>, whose result is stored in the proxy and made the
  value of \<^verbatim>\<open>response\<close>, and its \<^verbatim>\<open>JSON.stringify\<close> the value of \<^verbatim>\<open>responseText\<close>. The
  second component is the fields readable afterwards, \<open>None\<close> after an exception.
\<close>

definition respond ::
  "InjectConfig \<Rightarrow> nat \<Rightarrow> IRequestInfo \<Rightarrow> XMLHttpRequest \<Rightarrow> item list \<times> XMLHttpRequest option" where
  "respond config i requestInfo this =
     (case getResponseData this of
        None \<Rightarrow> ([Throw], None)
      | Some responseData \<Rightarrow>
          (let seen = (if callback config then [Call i Primary responseData] else [])
           in case lastCallback config of
                None \<Rightarrow> (seen, Some this)
              | Some cb \<Rightarrow>
                  (let modifiedResponse = cb responseData requestInfo
                   in (seen @ [Call i Last responseData],
                       Some (this\<lparr>response := modifiedResponse,
                                  responseText := JSON_stringify modifiedResponse,
                                  text_redefined := True\<rparr>)))))"

text \<open>
  Lines 140-141 for one matching rule: \<open>None\<close> when \<^verbatim>\<open>getResponseData(this)\<close> throws;
  otherwise the trace and, when \<^verbatim>\<open>preCallback\<close> exists and answers \<^verbatim>\<open>false\<close>, the
  replacement it names.
\<close>

definition ask ::
  "InjectConfig \<Rightarrow> nat \<Rightarrow> IRequestInfo \<Rightarrow> XMLHttpRequest \<Rightarrow> (item list \<times> replacement option) option" where
  "ask config i requestInfo this =
     (case preCallback config of
        None \<Rightarrow> Some ([], None)
      | Some cb \<Rightarrow>
          (case getResponseData this of
             None \<Rightarrow> None
           | Some responseData \<Rightarrow>
               (case cb responseData requestInfo of
                  (isValid, newBody) \<Rightarrow>
                    Some ([Call i Pre responseData], if isValid then None else Some newBody))))"

text \<open>
  Lines 148-180, the handler given to the superseding request, called with \<open>newRequest\<close>
  the fields of that request: at ready state 4 it copies six fields into the proxy (whose
  \<^verbatim>\<open>responseType\<close> stays empty; the reads of \<^verbatim>\<open>responseText\<close> and \<^verbatim>\<open>responseXML\<close> may throw),
  lets \<^verbatim>\<open>lastCallback\<close> replace the body, redefines the seven fields of the original object
  to read from the proxy, and calls the original handler. At any other ready state it
  does nothing. \<open>relay\<close> applies it to the calls of that handler in the trace of the
  superseding request and keeps everything else.
\<close>

definition completed ::
  "InjectConfig \<Rightarrow> nat \<Rightarrow> IRequestInfo \<Rightarrow> bool \<Rightarrow> XMLHttpRequest \<Rightarrow> XMLHttpRequest \<Rightarrow> item list" where
  "completed config i requestInfo handler this newRequest =
     (if readyState newRequest = 4 then
        (case read_responseText newRequest of
           None \<Rightarrow> [Throw]
         | Some txt \<Rightarrow>
        (case read_responseXML newRequest of
           None \<Rightarrow> [Throw]
         | Some xml \<Rightarrow>
        (let proxy0 = \<lparr>status = status newRequest, response = response newRequest,
                       statusText = statusText newRequest, responseType = [],
                       responseText = txt, responseXML = xml,
                       readyState = readyState newRequest\<rparr>
         in case getResponseData (as_XMLHttpRequest proxy0) of
              None \<Rightarrow> [Throw]
            | Some responseData \<Rightarrow>
        (let proxy = (case lastCallback config of
                        None \<Rightarrow> proxy0
                      | Some cb \<Rightarrow>
                          (let modifiedResponse = cb responseData requestInfo
                           in proxy0\<lparr>response := modifiedResponse,
                                     responseText := JSON_stringify modifiedResponse\<rparr>))
         in (case lastCallback config of
               None \<Rightarrow> []
             | Some cb \<Rightarrow> [Call i Last responseData]) @
            (if handler then
               [Fire (this\<lparr>status := status proxy, response := response proxy,
                           statusText := statusText proxy, responseXML := responseXML proxy,
                           responseText := responseText proxy,
                           responseType := responseType proxy,
                           readyState := readyState proxy,
                           text_redefined := True\<rparr>)]
             else [])))))
      else [])"

definition relay ::
  "InjectConfig \<Rightarrow> nat \<Rightarrow> IRequestInfo \<Rightarrow> bool \<Rightarrow> XMLHttpRequest \<Rightarrow> item \<Rightarrow> item list" where
  "relay config i requestInfo handler this it =
     (case it of
        Fire newRequest \<Rightarrow> completed config i requestInfo handler this newRequest
      | Call j h d \<Rightarrow> [Call j h d]
      | Throw \<Rightarrow> [Throw])"

text \<open>
  \<^verbatim>\<open>new XMLHttpRequest()\<close>, \<^verbatim>\<open>open(method, uri, true)\<close>, the assignment of the handler and
  \<^verbatim>\<open>send(data)\<close> go through whatever \<^verbatim>\<open>XMLHttpRequest.prototype\<close> holds at that time. A
  \<open>transport\<close> is that: from the method, the URL and the body to the trace of the new
  request, in which \<open>Fire\<close> is a call of the handler assigned to it; \<open>None\<close> when the
  request never gets that far.
\<close>

type_synonym transport = "string \<Rightarrow> string \<Rightarrow> jsval \<Rightarrow> item list option"

text \<open>
  The loop of lines 133-199 over the rules from index \<open>i\<close> on, for the object \<open>x\<close>, the body
  sent and the fields \<open>this\<close> currently readable. A rule that does not match is skipped
  (\<^verbatim>\<open>continue\<close>). For a rule that matches, \<^verbatim>\<open>preCallback\<close> is asked first; when it answers
  \<^verbatim>\<open>false\<close> the loop is left (\<^verbatim>\<open>return newRequest.send(...)\<close>) and the rest of the trace is
  that of the superseding request, relayed; otherwise \<open>respond\<close> runs and the loop goes
  on with the next rule: there is no \<^verbatim>\<open>break\<close>. The second component is the fields to
  hand to the original handler, or \<open>None\<close> when it is not to be called
  (\<^verbatim>\<open>shouldResponse = false\<close>, or an exception).
\<close>

fun pipeline ::
  "transport \<Rightarrow> page \<Rightarrow> XMLHttpRequestWithUrl \<Rightarrow> jsval \<Rightarrow> nat \<Rightarrow> InjectConfig list \<Rightarrow>
     XMLHttpRequest \<Rightarrow> (item list \<times> XMLHttpRequest option) option" where
  "pipeline nr pg x body i [] this = Some ([], Some this)"
| "pipeline nr pg x body i (config # rest) this =
     (if matches pg (responseURL this) (xhr_method x) config then
        (case genUrl pg (responseURL this) of
           None \<Rightarrow> Some ([Throw], None)
         | Some u \<Rightarrow>
             (let requestInfo = \<lparr>req_url = u, req_data = body\<rparr>
              in case ask config i requestInfo this of
                   None \<Rightarrow> Some ([Throw], None)
                 | Some (pre, Some newBody) \<Rightarrow>
                     map_option
                       (\<lambda>t. (pre @ concat (map (relay config i requestInfo (onreadystatechange x) this) t), None))
                       (nr (the_method x) (new_uri newBody) (new_data newBody))
                 | Some (pre, None) \<Rightarrow>
                     (case respond config i requestInfo this of
                        (log, None) \<Rightarrow> Some (pre @ log, None)
                      | (log, Some this') \<Rightarrow>
                          map_option (\<lambda>r. (pre @ log @ fst r, snd r))
                            (pipeline nr pg x body (Suc i) rest this'))))
      else pipeline nr pg x body (Suc i) rest this)"

text \<open>
  The handler of lines 129-203, for one \<^verbatim>\<open>readystatechange\<close> event with the fields \<open>this\<close>.
\<close>

definition onreadystatechange_wrapper ::
  "transport \<Rightarrow> page \<Rightarrow> InjectConfig list \<Rightarrow> XMLHttpRequestWithUrl \<Rightarrow> jsval \<Rightarrow>
     XMLHttpRequest \<Rightarrow> item list option" where
  "onreadystatechange_wrapper nr pg cfs x body this =
     (if readyState this = 4 \<and> status this = 200 then
        map_option
          (\<lambda>r. fst r @ (case snd r of
                           Some this' \<Rightarrow> if onreadystatechange x then [Fire this'] else []
                         | None \<Rightarrow> []))
          (pipeline nr pg x body 0 cfs this)
      else Some (if onreadystatechange x then [Fire this] else []))"

text \<open>
  The events of one request, one after the other, and the wrapper installed on
  \<^verbatim>\<open>XMLHttpRequest.prototype.send\<close> (lines 76-206). A native \<^verbatim>\<open>send\<close> on an object that
  was never opened throws.
\<close>

fun dispatch ::
  "transport \<Rightarrow> page \<Rightarrow> InjectConfig list \<Rightarrow> XMLHttpRequestWithUrl \<Rightarrow> jsval \<Rightarrow>
     XMLHttpRequest list \<Rightarrow> item list option" where
  "dispatch nr pg cfs x body [] = Some []"
| "dispatch nr pg cfs x body (e # es) =
     (case onreadystatechange_wrapper nr pg cfs x body e of
        None \<Rightarrow> None
      | Some t \<Rightarrow> map_option (\<lambda>ts. t @ ts) (dispatch nr pg cfs x body es))"

definition xhr_send ::
  "transport \<Rightarrow> page \<Rightarrow> InjectConfig list \<Rightarrow> XMLHttpRequestWithUrl \<Rightarrow> jsval \<Rightarrow> item list option" where
  "xhr_send nr pg cfs this body =
     (case beforeSend pg 0 cfs this body of
        (log, None) \<Rightarrow> Some log
      | (log, Some (x, body')) \<Rightarrow>
          (case native_target x of
             None \<Rightarrow> Some (log @ [Throw])
           | Some (m, u) \<Rightarrow>
               map_option (\<lambda>t. log @ t)
                 (dispatch nr pg cfs x body'
                    (native_XHR pg \<lparr>rq_method = m, rq_url = u, rq_headers = native_headers x,
                                    rq_body = body'\<rparr>))))"

text \<open>
  The transport while the wrappers are installed: a fresh object, the wrapped \<^verbatim>\<open>open\<close>,
  a handler, the wrapped \<^verbatim>\<open>send\<close>. A superseding request may be superseded in turn, so
  the wrapped \<^verbatim>\<open>send\<close> is defined with a bound on the depth of that chain:
  \<open>hijacked_send n\<close> is \<open>None\<close> when the chain is longer than \<open>n\<close>.
\<close>

definition new_request :: "(XMLHttpRequestWithUrl \<Rightarrow> jsval \<Rightarrow> item list option) \<Rightarrow> transport" where
  "new_request send m u d = send ((xhr_open m u new_XMLHttpRequest)\<lparr>onreadystatechange := True\<rparr>) d"

primrec hijacked_send ::
  "nat \<Rightarrow> page \<Rightarrow> InjectConfig list \<Rightarrow> XMLHttpRequestWithUrl \<Rightarrow> jsval \<Rightarrow> item list option" where
  "hijacked_send 0 pg cfs = xhr_send (\<lambda>m u d. None) pg cfs"
| "hijacked_send (Suc n) pg cfs = xhr_send (new_request (hijacked_send n pg cfs)) pg cfs"

section \<open>The modern transport\<close>

text \<open>
  Lines 214-215 of the wrapper installed on \<^verbatim>\<open>fetch\<close>: the URL of the input, and
  \<^verbatim>\<open>init && init.method ? init.method : 'GET'\<close>; \<^verbatim>\<open>init?.body\<close>; and
  \<^verbatim>\<open>{ ...init, body: result.data }\<close>.
\<close>

definition input_url :: "fetch_input \<Rightarrow> string" where
  "input_url input = (case input of InString s \<Rightarrow> s | InURL u \<Rightarrow> href u | InRequest s \<Rightarrow> s)"

definition fetch_method :: "RequestInit option \<Rightarrow> string" where
  "fetch_method init =
     (case init of
        None \<Rightarrow> ''GET''
      | Some i \<Rightarrow> (case init_method i of
                     None \<Rightarrow> ''GET''
                   | Some m \<Rightarrow> if m = [] then ''GET'' else m))"

definition fetch_body :: "RequestInit option \<Rightarrow> jsval" where
  "fetch_body init = (case init of None \<Rightarrow> JUndefined | Some i \<Rightarrow> init_body i)"

definition with_body :: "RequestInit option \<Rightarrow> jsval \<Rightarrow> RequestInit option" where
  "with_body init d =
     (case init of
        None \<Rightarrow> Some \<lparr>init_method = None, init_body = d\<rparr>
      | Some i \<Rightarrow> Some (i\<lparr>init_body := d\<rparr>))"

text \<open>
  The loop of lines 221-240: the first matching rule only.
\<close>

fun fetch_beforeSend ::
  "page \<Rightarrow> nat \<Rightarrow> InjectConfig list \<Rightarrow> fetch_input \<Rightarrow> RequestInit option \<Rightarrow>
     item list \<times> (fetch_input \<times> RequestInit option) option" where
  "fetch_beforeSend pg i [] input init = ([], Some (input, init))"
| "fetch_beforeSend pg i (config # rest) input init =
     (if matches pg (input_url input) (Some (fetch_method init)) config then
        (case beforeSendCallback config of
           None \<Rightarrow> ([], Some (input, init))
         | Some cb \<Rightarrow>
             (case genUrl pg (input_url input) of
                None \<Rightarrow> ([Throw], None)
              | Some u \<Rightarrow>
                  ([Call i BeforeSend (fetch_body init)],
                   (case cb \<lparr>req_url = u, req_data = fetch_body init\<rparr> of
                      None \<Rightarrow> Some (input, init)
                    | Some result \<Rightarrow>
                        Some (case bs_url result of None \<Rightarrow> input | Some nu \<Rightarrow> InString (href nu),
                              if truthy (bs_data result) then with_body init (bs_data result)
                              else init)))))
      else fetch_beforeSend pg (Suc i) rest input init)"

text \<open>
  \<^verbatim>\<open>new Response(modifiedContent, {status, statusText, headers})\<close>: the constructor throws a
  \<^verbatim>\<open>RangeError\<close> for a status outside 200-599, and a \<^verbatim>\<open>TypeError\<close> for a body that is not
  null with a null-body status (204, 205, 304; 101 and 103 are out of range already);
  \<open>None\<close> is either exception. A body that is \<^verbatim>\<open>undefined\<close> is a null body, read as empty.
  The URL of a constructed response is empty. The status text and the headers are those
  of a response the page produced, which the constructor accepts.
\<close>

definition new_Response :: "jsval \<Rightarrow> Response \<Rightarrow> Response option" where
  "new_Response modifiedContent resp =
     (if resp_status resp < 200 \<or> 599 < resp_status resp then None
      else if modifiedContent \<noteq> JUndefined \<and> resp_status resp \<in> {204, 205, 304} then None
      else Some \<lparr>resp_url = [], resp_status = resp_status resp,
                 resp_statusText = resp_statusText resp, resp_headers = resp_headers resp,
                 resp_body = (case modifiedContent of JStr s \<Rightarrow> s | _ \<Rightarrow> [])\<rparr>)"

text \<open>
  The loop of lines 245-283 over the rules from index \<open>i\<close> on: every matching rule has its
  \<^verbatim>\<open>callback\<close> called, and the first one with a \<^verbatim>\<open>lastCallback\<close> ends the loop by
  returning the rebuilt response, or by the exception of its construction.
\<close>

fun fetch_respond ::
  "page \<Rightarrow> string \<Rightarrow> jsval \<Rightarrow> Response \<Rightarrow> nat \<Rightarrow> InjectConfig list \<Rightarrow>
     item list \<times> Response option" where
  "fetch_respond pg m body resp i [] = ([], Some resp)"
| "fetch_respond pg m body resp i (config # rest) =
     (if matches pg (resp_url resp) (Some m) config then
        (let content = resp_body resp;
             responseData = (case JSON_parse pg content of Some v \<Rightarrow> v | None \<Rightarrow> JStr content)
         in case genUrl pg (resp_url resp) of
              None \<Rightarrow> ([Throw], None)
            | Some u \<Rightarrow>
                (let requestInfo = \<lparr>req_url = u, req_data = body\<rparr>;
                     seen = (if callback config then [Call i Primary responseData] else [])
                 in case lastCallback config of
                      Some cb \<Rightarrow>
                        (let modifiedData = cb responseData requestInfo;
                             modifiedContent = (case modifiedData of
                                                  JStr s \<Rightarrow> JStr s
                                                | _ \<Rightarrow> JSON_stringify modifiedData)
                         in case new_Response modifiedContent resp of
                              None \<Rightarrow> (seen @ [Call i Last responseData, Throw], None)
                            | Some rebuilt \<Rightarrow> (seen @ [Call i Last responseData], Some rebuilt))
                    | None \<Rightarrow>
                        (seen @ fst (fetch_respond pg m body resp (Suc i) rest),
                         snd (fetch_respond pg m body resp (Suc i) rest))))
      else fetch_respond pg m body resp (Suc i) rest)"

text \<open>
  The wrapper installed on \<^verbatim>\<open>fetch\<close>: the trace, and the response the promise resolves
  to (\<open>None\<close> when it rejects).
\<close>

definition hijacked_fetch ::
  "page \<Rightarrow> InjectConfig list \<Rightarrow> fetch_input \<Rightarrow> RequestInit option \<Rightarrow> item list \<times> Response option" where
  "hijacked_fetch pg cfs input init =
     (case fetch_beforeSend pg 0 cfs input init of
        (log, None) \<Rightarrow> (log, None)
      | (log, Some (modifiedInput, modifiedInit)) \<Rightarrow>
          (case native_fetch pg modifiedInput modifiedInit of
             None \<Rightarrow> (log, None)
           | Some resp \<Rightarrow>
               (case fetch_respond pg (fetch_method init) (fetch_body init) resp 0 cfs of
                  (log', r) \<Rightarrow> (log @ log', r))))"

section \<open>A concrete page\<close>

text \<open>
  The closed theorems below run the wrappers on one page. Its URL constructor is the
  fragment of the standard one that reads \<^verbatim>\<open>scheme://host/path?query#fragment\<close>: the scheme
  starts with a letter and runs up to the first colon, the host is lower-cased, an empty
  path is \<^verbatim>\<open>/\<close>; every other string is refused, as the standard constructor without a
  base refuses every string that does not start with a scheme. Pattern 1 of the page
  accepts every URL, the other patterns none.
\<close>

definition is_alpha :: "char \<Rightarrow> bool" where
  "is_alpha c = (c \<in> set ''abcdefghijklmnopqrstuvwxyzABCDEFGHIJKLMNOPQRSTUVWXYZ'')"

definition is_scheme_char :: "char \<Rightarrow> bool" where
  "is_scheme_char c = (is_alpha c \<or> c \<in> set ''0123456789+-.'')"

definition URL_parse :: "string \<Rightarrow> URL option" where
  "URL_parse s =
     (let scheme = toLowerCase (takeWhile is_scheme_char s);
          rest = dropWhile is_scheme_char s;
          r = drop 3 rest;
          authority = toLowerCase (takeWhile (\<lambda>x. x \<notin> set ''/?#'') r);
          after = dropWhile (\<lambda>x. x \<notin> set ''/?#'') r;
          path = takeWhile (\<lambda>x. x \<notin> set ''?#'') after;
          tail = dropWhile (\<lambda>x. x \<notin> set ''?#'') after;
          p = (if path = [] then ''/'' else path)
      in if list_ex is_alpha (take 1 s) \<and> take 3 rest = ''://'' \<and> authority \<noteq> []
         then Some \<lparr>protocol = scheme @ '':'', host = authority, pathname = p,
                     href = scheme @ ''://'' @ authority @ p @ tail\<rparr>
         else None)"

text \<open>The text \<^verbatim>\<open>{"v":1}\<close>.\<close>

definition json_v1 :: string where
  "json_v1 = [CHR ''{'', CHR 0x22, CHR ''v'', CHR 0x22, CHR '':'', CHR ''1'', CHR ''}'']"

definition ok :: "string \<Rightarrow> jsval \<Rightarrow> XMLHttpRequest" where
  "ok u txt = \<lparr>status = 200, response = txt, statusText = ''OK'', responseType = [],
              responseText = txt, responseXML = JNull, readyState = 4, responseURL = u,
              text_redefined = False\<rparr>"

definition created :: XMLHttpRequest where
  "created = (ok ''https://example.com/api/redirect'' (JStr ''second''))
               \<lparr>status := 201, statusText := ''Created''\<rparr>"

text \<open>
  The server: \<^verbatim>\<open>/api/data\<close> answers 200 with the text \<^verbatim>\<open>first\<close>, in three events;
  \<^verbatim>\<open>/api/redirect\<close> answers 201 with the text \<^verbatim>\<open>second\<close>; everything else is a 404.
\<close>

definition demo_XHR :: "request \<Rightarrow> XMLHttpRequest list" where
  "demo_XHR rq =
     (if rq_url rq = ''/api/data'' \<or> rq_url rq = ''https://example.com/api/data'' then
        [(ok ''https://example.com/api/data'' (JStr []))\<lparr>readyState := 2\<rparr>,
         (ok ''https://example.com/api/data'' (JStr ''first''))\<lparr>readyState := 3\<rparr>,
         ok ''https://example.com/api/data'' (JStr ''first'')]
      else if rq_url rq = ''https://example.com/api/redirect'' then
        [(ok ''https://example.com/api/redirect'' (JStr []))\<lparr>readyState := 2\<rparr>, created]
      else
        [(ok (rq_url rq) (JStr ''missing''))\<lparr>status := 404, statusText := ''Not Found''\<rparr>])"

definition demo_fetch :: "fetch_input \<Rightarrow> RequestInit option \<Rightarrow> Response option" where
  "demo_fetch input init =
     (if input_url input = ''/api/data'' \<or> input_url input = ''https://example.com/api/data'' then
        Some \<lparr>resp_url = ''https://example.com/api/data'', resp_status = 200,
              resp_statusText = ''OK'', resp_headers = [(''content-type'', ''application/json'')],
              resp_body = json_v1\<rparr>
      else None)"

definition demo_page :: page where
  "demo_page =
     \<lparr>location_origin = ''https://example.com'',
      new_URL = URL_parse,
      JSON_parse = (\<lambda>s. if s = json_v1 then Some (JObj [(''v'', JNum 1)]) else None),
      RegExp_test = (\<lambda>r u. r = 1),
      native_XHR = demo_XHR,
      native_fetch = demo_fetch\<rparr>"

text \<open>
  Rules: \<open>rule0\<close> refuses every response and asks for \<^verbatim>\<open>/api/redirect\<close>; \<open>ruleA\<close>
  and \<open>ruleB\<close> only observe, through a literal target and a pattern that accepts
  nothing; \<open>ruleS\<close> replaces the body by a string;
  \<open>ruleU\<close> adds a query to the URL before the request is sent; \<open>ruleX\<close> is a pattern
  rule with a pre-send hook that refuses every response and asks for the relative URL
  \<^verbatim>\<open>api/redirect\<close>; \<open>ruleR\<close> refuses every response and asks for the same URL again;
  \<open>ruleF\<close> has a pre-send hook and a \<^verbatim>\<open>callback\<close>, \<open>ruleL\<close> every hook, none of which
  changes anything.
\<close>

definition rule0 :: InjectConfig where
  "rule0 =
     \<lparr>url = Literal ''https://example.com/api/data'', cf_method = ''GET'', callback = True,
      preCallback = Some (\<lambda>d ri. (False, \<lparr>new_uri = ''https://example.com/api/redirect'',
                                           new_data = JStr ''D''\<rparr>)),
      lastCallback = Some (\<lambda>d ri. JObj [(''seen'', d)]),
      beforeSendCallback = None\<rparr>"

definition ruleA :: InjectConfig where
  "ruleA =
     \<lparr>url = Literal ''https://example.com/api/data'', cf_method = ''GET'', callback = True,
      preCallback = None, lastCallback = None, beforeSendCallback = None\<rparr>"

definition ruleB :: InjectConfig where
  "ruleB =
     \<lparr>url = Pattern 0, cf_method = ''get'', callback = True,
      preCallback = None, lastCallback = None, beforeSendCallback = None\<rparr>"

definition ruleS :: InjectConfig where
  "ruleS =
     \<lparr>url = Literal ''https://example.com/api/data'', cf_method = ''GET'', callback = False,
      preCallback = None, lastCallback = Some (\<lambda>d ri. JStr ''patched''),
      beforeSendCallback = None\<rparr>"

definition ruleU :: InjectConfig where
  "ruleU =
     \<lparr>url = Literal ''https://example.com/api/data'', cf_method = ''get'', callback = False,
      preCallback = None, lastCallback = None,
      beforeSendCallback =
        Some (\<lambda>ri. Some \<lparr>bs_url = Some ((req_url ri)\<lparr>href := href (req_url ri) @ ''?token=1''\<rparr>),
                          bs_data = JUndefined\<rparr>)\<rparr>"

definition ruleX :: InjectConfig where
  "ruleX =
     \<lparr>url = Pattern 1, cf_method = ''GET'', callback = False,
      preCallback = Some (\<lambda>d ri. (False, \<lparr>new_uri = ''api/redirect'', new_data = JUndefined\<rparr>)),
      lastCallback = None,
      beforeSendCallback = Some (\<lambda>ri. None)\<rparr>"

definition ruleR :: InjectConfig where
  "ruleR =
     \<lparr>url = Literal ''https://example.com/api/data'', cf_method = ''GET'', callback = False,
      preCallback = Some (\<lambda>d ri. (False, \<lparr>new_uri = ''/api/data'', new_data = JUndefined\<rparr>)),
      lastCallback = None, beforeSendCallback = None\<rparr>"

definition ruleF :: InjectConfig where
  "ruleF =
     \<lparr>url = Literal ''https://example.com/api/data'', cf_method = ''GET'', callback = True,
      preCallback = None, lastCallback = None, beforeSendCallback = Some (\<lambda>ri. None)\<rparr>"

definition ruleL :: InjectConfig where
  "ruleL =
     \<lparr>url = Pattern 1, cf_method = ''get'', callback = True,
      preCallback = Some (\<lambda>d ri. (True, \<lparr>new_uri = [], new_data = JUndefined\<rparr>)),
      lastCallback = Some (\<lambda>d ri. d),
      beforeSendCallback = Some (\<lambda>ri. None)\<rparr>"

text \<open>A caller that opens \<^verbatim>\<open>GET /api/data\<close> and assigns a handler; one that also sets two headers.\<close>

definition caller :: XMLHttpRequestWithUrl where
  "caller = (xhr_open ''GET'' ''/api/data'' new_XMLHttpRequest)\<lparr>onreadystatechange := True\<rparr>"

definition caller_with_headers :: XMLHttpRequestWithUrl where
  "caller_with_headers =
     setRequestHeader ''Content-Length'' ''2'' (setRequestHeader ''X-Token'' ''abc'' caller)"

text \<open>The module before the first construction, on a page whose entry points are the host's.\<close>

definition world0 :: world where
  "world0 =
     \<lparr>isHijacked = False, INSTANCE = None, objects = [],
      XHR_open = HostFn 0, XHR_send = HostFn 1, window_fetch = HostFn 2, console = []\<rparr>"

section \<open>Notions the theorems are stated with\<close>

text \<open>The identity \<^verbatim>\<open>addConfig\<close> compares rules by.\<close>

definition rule_key :: "InjectConfig \<Rightarrow> target \<times> string" where
  "rule_key c = (url c, cf_method c)"

text \<open>
  The calls of the caller's handler in a trace, as the fields each call reads; those at
  ready state 4 are its completions. The hook calls of a trace, as rule index and stage.
\<close>

definition fires :: "item list \<Rightarrow> XMLHttpRequest list" where
  "fires t = concat (map (\<lambda>it. case it of Fire f \<Rightarrow> [f] | Call i h d \<Rightarrow> [] | Throw \<Rightarrow> []) t)"

definition completions :: "item list \<Rightarrow> XMLHttpRequest list" where
  "completions t = filter (\<lambda>f. readyState f = 4) (fires t)"

definition calls :: "item list \<Rightarrow> (nat \<times> hook) list" where
  "calls t = concat (map (\<lambda>it. case it of Call i h d \<Rightarrow> [(i, h)] | Fire f \<Rightarrow> [] | Throw \<Rightarrow> []) t)"

text \<open>
  A completion of a request whose \<^verbatim>\<open>responseText\<close> and \<^verbatim>\<open>responseXML\<close> can be read. What the
  caller of a superseded request reads, \<open>f\<close>, against the fields \<open>newRequest\<close> of the
  superseding request at such a completion: the same status, status text and XML body at
  ready state 4, and the same body, or the body the rule's \<^verbatim>\<open>lastCallback\<close> makes of the new
  request's text.
\<close>

definition readable :: "XMLHttpRequest \<Rightarrow> bool" where
  "readable f = (read_responseText f \<noteq> None \<and> read_responseXML f \<noteq> None)"

definition superseded :: "InjectConfig \<Rightarrow> IRequestInfo \<Rightarrow> XMLHttpRequest \<Rightarrow> XMLHttpRequest \<Rightarrow> bool" where
  "superseded config ri f newRequest =
     (status f = status newRequest \<and> statusText f = statusText newRequest \<and>
      responseXML f = responseXML newRequest \<and> readyState f = 4 \<and>
      (case lastCallback config of
         None \<Rightarrow> response f = response newRequest \<and> responseText f = responseText newRequest
       | Some cb \<Rightarrow> response f = cb (responseText newRequest) ri \<and>
                   responseText f = JSON_stringify (response f)))"

text \<open>
  A transport that calls the handler of a request at most once at ready state 4, and a
  page whose native transport has at most one event at ready state 4 per request.
\<close>

definition at_most_once :: "transport \<Rightarrow> bool" where
  "at_most_once nr = (\<forall>m u d t. nr m u d = Some t \<longrightarrow> length (completions t) \<le> 1)"

definition completes_once :: "page \<Rightarrow> bool" where
  "completes_once pg = (\<forall>rq. length (filter (\<lambda>e. readyState e = 4) (native_XHR pg rq)) \<le> 1)"

section \<open>Properties of the registry\<close>

lemma isExist_rule_key: "isExist cfs c = (rule_key c \<in> rule_key ` set cfs)"
  unfolding isExist_def rule_key_def list_ex_iff image_iff
  by (metis prod.inject)

lemma addConfig_appends: "\<exists>ys. addConfig cfs batch = cfs @ ys \<and> subseq ys batch"
proof (induction batch arbitrary: cfs)
  case Nil
  then show ?case by simp
next
  case (Cons c batch)
  show ?case
  proof (cases "isExist cfs c")
    case True
    from Cons.IH [of cfs] obtain ys where "addConfig cfs batch = cfs @ ys" "subseq ys batch"
      by blast
    with True show ?thesis by (auto intro: subseq_Cons')
  next
    case False
    from Cons.IH [of "cfs @ [c]"] obtain ys
      where "addConfig (cfs @ [c]) batch = (cfs @ [c]) @ ys" "subseq ys batch"
      by blast
    with False show ?thesis by (auto intro!: exI [of _ "c # ys"])
  qed
qed

lemma addConfig_distinct:
  "distinct (map rule_key cfs) \<Longrightarrow> distinct (map rule_key (addConfig cfs batch))"
  by (induction batch arbitrary: cfs) (auto simp: isExist_rule_key)

lemma addConfig_keeps: "k \<in> rule_key ` set cfs \<Longrightarrow> k \<in> rule_key ` set (addConfig cfs batch)"
  by (induction batch arbitrary: cfs) auto

lemma addConfig_covers: "c \<in> set batch \<Longrightarrow> rule_key c \<in> rule_key ` set (addConfig cfs batch)"
proof (induction batch arbitrary: cfs)
  case Nil
  then show ?case by simp
next
  case (Cons a batch)
  show ?case
  proof (cases "c = a")
    case True
    have "rule_key a \<in> rule_key ` set (if isExist cfs a then cfs else cfs @ [a])"
      by (simp add: isExist_rule_key)
    then show ?thesis using True by (simp add: addConfig_keeps)
  next
    case False
    with Cons show ?thesis by simp
  qed
qed

lemma one_entry:
  "distinct (map f xs) \<Longrightarrow> k \<in> f ` set xs \<Longrightarrow> length (filter (\<lambda>x. f x = k) xs) = 1"
proof (induction xs)
  case Nil
  then show ?case by simp
next
  case (Cons x xs)
  show ?case
  proof (cases "f x = k")
    case True
    with Cons.prems have "filter (\<lambda>y. f y = k) xs = []"
      by (force simp: filter_empty_conv image_iff)
    with True show ?thesis by simp
  next
    case False
    with Cons show ?thesis by auto
  qed
qed

lemma addConfig_append_batch: "addConfig (addConfig cfs b1) b2 = addConfig cfs (b1 @ b2)"
  by (induction b1 arbitrary: cfs) auto

text \<open>
  Claim C3, as the code has it. Two rules with the same \<^verbatim>\<open>url\<close> and \<^verbatim>\<open>method\<close> that are
  registered through \<^verbatim>\<open>addConfig\<close>, in one batch or in two successive ones, on a registry
  without a duplicate pair, leave exactly one entry for the pair; and what \<^verbatim>\<open>addConfig\<close>
  appends are rules of the batches in their order, after the rules already there.
\<close>

theorem addConfig_one_entry:
  assumes "distinct (map rule_key cfs)"
    and "R1 \<in> set (b1 @ b2)" and "R2 \<in> set (b1 @ b2)"
    and "url R1 = url R2" and "cf_method R1 = cf_method R2"
  shows "length (filter (\<lambda>c. url c = url R1 \<and> cf_method c = cf_method R1)
                   (addConfig (addConfig cfs b1) b2)) = 1 \<and>
         (\<exists>ys zs. addConfig (addConfig cfs b1) b2 = cfs @ ys @ zs \<and> subseq ys b1 \<and> subseq zs b2)"
proof
  have d: "distinct (map rule_key (addConfig cfs (b1 @ b2)))"
    using assms(1) by (rule addConfig_distinct)
  have "rule_key R1 \<in> rule_key ` set (addConfig cfs (b1 @ b2))"
    using assms(2) by (rule addConfig_covers)
  with d have "length (filter (\<lambda>c. rule_key c = rule_key R1) (addConfig cfs (b1 @ b2))) = 1"
    by (rule one_entry)
  moreover have "(\<lambda>c. rule_key c = rule_key R1) = (\<lambda>c. url c = url R1 \<and> cf_method c = cf_method R1)"
    by (auto simp: rule_key_def)
  ultimately show "length (filter (\<lambda>c. url c = url R1 \<and> cf_method c = cf_method R1)
                   (addConfig (addConfig cfs b1) b2)) = 1"
    by (simp add: addConfig_append_batch)
next
  obtain ys where ys: "addConfig cfs b1 = cfs @ ys" "subseq ys b1"
    using addConfig_appends by blast
  obtain zs where zs: "addConfig (addConfig cfs b1) b2 = addConfig cfs b1 @ zs" "subseq zs b2"
    using addConfig_appends by blast
  from ys zs show "\<exists>ys zs. addConfig (addConfig cfs b1) b2 = cfs @ ys @ zs \<and> subseq ys b1 \<and> subseq zs b2"
    by auto
qed

text \<open>
  An instance: \<open>ruleA\<close> and a second rule with its target and method, added in two
  batches to a registry that holds \<open>ruleB\<close>.
\<close>

theorem addConfig_one_entry_witness:
  "length (filter (\<lambda>c. url c = url ruleA \<and> cf_method c = cf_method ruleA)
             (addConfig (addConfig [ruleB] [ruleA]) [ruleA\<lparr>callback := False\<rparr>])) = 1 \<and>
   (\<exists>ys zs. addConfig (addConfig [ruleB] [ruleA]) [ruleA\<lparr>callback := False\<rparr>] = [ruleB] @ ys @ zs \<and>
            subseq ys [ruleA] \<and> subseq zs [ruleA\<lparr>callback := False\<rparr>])"
  using addConfig_one_entry [of "[ruleB]" ruleA "[ruleA]" "[ruleA\<lparr>callback := False\<rparr>]" "ruleA\<lparr>callback := False\<rparr>"]
  by (simp add: rule_key_def ruleA_def ruleB_def)

text \<open>
  The first construction stores its batch as given: two rules with one \<^verbatim>\<open>url\<close> and
  \<^verbatim>\<open>method\<close> are both in the registry afterwards.
\<close>

theorem constructor_keeps_duplicates:
  "length (filter (\<lambda>c. url c = url ruleA \<and> cf_method c = cf_method ruleA)
     (interceptConfigs (objects (fst (constructor (Many [ruleA, ruleA\<lparr>callback := False\<rparr>]) world0)) ! 0))) = 2"
  by (simp add: constructor_def world0_def blank_def Let_def)

section \<open>Properties of the matcher\<close>

lemmas url_ev = URL_parse_def is_alpha_def is_scheme_char_def toLowerCase_def lower_char_def Let_def

lemma page_facts:
  "location_origin demo_page = ''https://example.com''"
  "RegExp_test demo_page r u = (r = 1)"
  "native_XHR demo_page = demo_XHR"
  "native_fetch demo_page = demo_fetch"
  by (simp_all add: demo_page_def)

lemma data_url:
  "new_URL demo_page ''https://example.com/api/data'' =
     Some \<lparr>protocol = ''https:'', host = ''example.com'', pathname = ''/api/data'',
            href = ''https://example.com/api/data''\<rparr>"
  by (simp add: demo_page_def url_ev)

text \<open>
  Claim C7. When the URL constructor refuses the candidate URL or a rule's string target,
  \<^verbatim>\<open>isTargetUrl\<close> is false, and so is the test the loops make with a rule that has that
  target. The matcher is a function: it has a value for every input and no effect.
\<close>

theorem isTargetUrl_fails_closed:
  assumes "new_URL pg u = None \<or> new_URL pg t = None"
  shows "isTargetUrl pg u (Literal t) = False \<and>
         matches pg u m (config\<lparr>url := Literal t\<rparr>) = False"
  using assms by (auto simp: isTargetUrl_def matches_def split: option.splits)

theorem isTargetUrl_fails_closed_witness:
  "new_URL demo_page ''not a url'' = None \<and>
   isTargetUrl demo_page ''not a url'' (Literal ''https://example.com/api/data'') = False \<and>
   matches demo_page ''not a url'' (Some ''GET'')
     (ruleA\<lparr>url := Literal ''https://example.com/api/data''\<rparr>) = False"
proof -
  have h: "new_URL demo_page ''not a url'' = None"
    by (simp add: demo_page_def url_ev)
  then have "new_URL demo_page ''not a url'' = None \<or>
             new_URL demo_page ''https://example.com/api/data'' = None"
    by simp
  from isTargetUrl_fails_closed [OF this, of "Some ''GET''" ruleA] h show ?thesis by simp
qed

text \<open>
  Claim C5 at a concrete input, on the page whose origin is \<^verbatim>\<open>https://example.com\<close>: the
  relative target \<^verbatim>\<open>/api/x\<close> does not match the absolute candidate, the absolute target
  does not match the relative candidate, and the absolute target matches the absolute
  candidate. The wrapper of \<^verbatim>\<open>send\<close> resolves a relative candidate before it asks
  (\<open>requestUrl\<close>); the wrapper of \<^verbatim>\<open>fetch\<close> and \<^verbatim>\<open>isTargetUrl\<close> itself do not, and nothing
  resolves a rule's target.
\<close>

theorem relative_target_never_matches:
  "isTargetUrl demo_page ''https://example.com/api/x'' (Literal ''/api/x'') = False \<and>
   isTargetUrl demo_page ''/api/x'' (Literal ''https://example.com/api/x'') = False \<and>
   isTargetUrl demo_page ''https://example.com/api/x'' (Literal ''https://example.com/api/x'') = True"
  by (simp add: isTargetUrl_def demo_page_def url_ev)

section \<open>Properties of the session\<close>

text \<open>
  Claim C8, as the code has it. A construction while the flag is set installs nothing:
  the three entry points, the flag and the singleton reference stay as they are. When
  the singleton reference is there, the rules go to its \<^verbatim>\<open>addConfig\<close>, the expression
  evaluates to the singleton, and the console is untouched. When it is not, the warning
  is logged and the expression evaluates to the fresh object, which has no rules and no
  captured entry points.
\<close>

theorem constructor_while_active:
  assumes "isHijacked w"
  shows "XHR_open (fst (constructor opts w)) = XHR_open w \<and>
         XHR_send (fst (constructor opts w)) = XHR_send w \<and>
         window_fetch (fst (constructor opts w)) = window_fetch w \<and>
         isHijacked (fst (constructor opts w)) \<and>
         INSTANCE (fst (constructor opts w)) = INSTANCE w \<and>
         (case INSTANCE w of
            Some i \<Rightarrow>
              snd (constructor opts w) = i \<and>
              console (fst (constructor opts w)) = console w \<and>
              (i < length (objects w) \<longrightarrow>
                 interceptConfigs (objects (fst (constructor opts w)) ! i) =
                   addConfig (interceptConfigs (objects w ! i)) (toArray opts))
          | None \<Rightarrow>
              console (fst (constructor opts w)) = console w @ [warning] \<and>
              snd (constructor opts w) = length (objects w) \<and>
              objects (fst (constructor opts w)) = objects w @ [blank])"
  using assms
  by (auto simp: constructor_def addConfig_at_def Let_def nth_append split: option.splits)

text \<open>
  An instance of each case: a second construction after a first one, and a construction
  in a state with the flag set and no singleton.
\<close>

theorem constructor_while_active_witness:
  "isHijacked (fst (constructor (One ruleA) world0)) \<and>
   INSTANCE (fst (constructor (One ruleA) world0)) = Some 0 \<and>
   snd (constructor (One ruleB) (fst (constructor (One ruleA) world0))) = 0 \<and>
   console (fst (constructor (One ruleB) (fst (constructor (One ruleA) world0)))) = [] \<and>
   XHR_open (fst (constructor (One ruleB) (fst (constructor (One ruleA) world0)))) = HijackedOpen 0 \<and>
   interceptConfigs (objects (fst (constructor (One ruleB) (fst (constructor (One ruleA) world0)))) ! 0) =
     [ruleA, ruleB] \<and>
   console (fst (constructor (One ruleB) (world0\<lparr>isHijacked := True\<rparr>))) = [warning] \<and>
   XHR_open (fst (constructor (One ruleB) (world0\<lparr>isHijacked := True\<rparr>))) = HostFn 0"
proof -
  have a: "isHijacked (fst (constructor (One ruleA) world0))"
    by (simp add: constructor_def world0_def Let_def)
  have b: "isHijacked (world0\<lparr>isHijacked := True\<rparr>)"
    by simp
  show ?thesis
    using constructor_while_active [OF a, of "One ruleB"] constructor_while_active [OF b, of "One ruleB"]
    by (simp add: constructor_def world0_def Let_def blank_def isExist_def ruleA_def ruleB_def)
qed

text \<open>After a first and a second construction the console is empty: no warning was logged.\<close>

theorem second_construction_logs_nothing:
  "console (fst (constructor (One ruleB) (fst (constructor (One ruleA) world0)))) = []"
  by (simp add: constructor_def addConfig_at_def world0_def Let_def)

text \<open>
  Claim C9. After a first construction, \<^verbatim>\<open>restore\<close> on the object it returned gives the
  state of before \<^verbatim>\<open>restore\<close> with the three entry points set to what they were before the
  construction, and nothing else changed: the flag is still set and the singleton
  reference still there. A construction after that evaluates to the same object, leaves the
  entry points as restored, and adds its rules to that object's registry.
\<close>

theorem restore_then_construct:
  assumes "\<not> isHijacked w"
  shows "restore (snd (constructor opts w)) (fst (constructor opts w)) =
           (fst (constructor opts w))\<lparr>XHR_open := XHR_open w, XHR_send := XHR_send w,
                                       window_fetch := window_fetch w\<rparr> \<and>
         isHijacked (restore (snd (constructor opts w)) (fst (constructor opts w))) \<and>
         INSTANCE (restore (snd (constructor opts w)) (fst (constructor opts w))) =
           Some (snd (constructor opts w)) \<and>
         snd (constructor opts' (restore (snd (constructor opts w)) (fst (constructor opts w)))) =
           snd (constructor opts w) \<and>
         XHR_open (fst (constructor opts' (restore (snd (constructor opts w)) (fst (constructor opts w))))) =
           XHR_open w \<and>
         XHR_send (fst (constructor opts' (restore (snd (constructor opts w)) (fst (constructor opts w))))) =
           XHR_send w \<and>
         window_fetch (fst (constructor opts' (restore (snd (constructor opts w)) (fst (constructor opts w))))) =
           window_fetch w \<and>
         interceptConfigs
           (objects (fst (constructor opts' (restore (snd (constructor opts w)) (fst (constructor opts w))))) !
              snd (constructor opts w)) =
           addConfig (toArray opts) (toArray opts')"
  using assms
  by (simp add: constructor_def restore_def addConfig_at_def Let_def nth_append)

theorem restore_then_construct_witness:
  "\<not> isHijacked world0 \<and>
   XHR_open (restore 0 (fst (constructor (One ruleA) world0))) = HostFn 0 \<and>
   isHijacked (restore 0 (fst (constructor (One ruleA) world0))) \<and>
   XHR_open (fst (constructor (One ruleB) (restore 0 (fst (constructor (One ruleA) world0))))) = HostFn 0 \<and>
   interceptConfigs (objects (fst (constructor (One ruleB) (restore 0 (fst (constructor (One ruleA) world0))))) ! 0)
     = [ruleA, ruleB]"
proof -
  have a: "\<not> isHijacked world0"
    by (simp add: world0_def)
  have s: "snd (constructor (One ruleA) world0) = 0"
    by (simp add: constructor_def world0_def Let_def)
  have c: "addConfig (toArray (One ruleA)) (toArray (One ruleB)) = [ruleA, ruleB]"
    by (simp add: isExist_def ruleA_def ruleB_def)
  have o: "XHR_open world0 = HostFn 0"
    by (simp add: world0_def)
  note t = restore_then_construct [OF a, of "One ruleA" "One ruleB", unfolded s c o]
  have r: "XHR_open (restore 0 (fst (constructor (One ruleA) world0))) = HostFn 0"
    using t by simp
  from t a r show ?thesis by blast
qed

section \<open>Properties of the legacy transport\<close>

declare pipeline.simps(2) [simp del]

lemma fires_simps [simp]:
  "fires [] = []"
  "fires (Fire f # t) = f # fires t"
  "fires (Call i h d # t) = fires t"
  "fires (Throw # t) = fires t"
  "fires (s @ t) = fires s @ fires t"
  by (simp_all add: fires_def)

lemma calls_simps [simp]:
  "calls [] = []"
  "calls (Fire f # t) = calls t"
  "calls (Call i h d # t) = (i, h) # calls t"
  "calls (Throw # t) = calls t"
  "calls (s @ t) = calls s @ calls t"
  by (simp_all add: calls_def)

lemmas caller_ev = caller_def caller_with_headers_def setRequestHeader_def xhr_open_def
  new_XMLHttpRequest_def originalXHRopen_apply_def originalSetRequestHeader_def

lemma caller_facts:
  "requestUrl demo_page caller = ''https://example.com/api/data''"
  "xhr_method caller = Some ''GET''"
  "the_method caller = ''GET''"
  "onreadystatechange caller"
  "requestUrl demo_page caller_with_headers = ''https://example.com/api/data''"
  "xhr_method caller_with_headers = Some ''GET''"
  "the_method caller_with_headers = ''GET''"
  "requestHeaders caller_with_headers =
     Some [(''x-token'', ''X-Token'', ''abc''), (''content-length'', ''Content-Length'', ''2'')]"
  by (simp_all add: caller_ev requestUrl_def the_method_def startsWith_def demo_page_def
      toLowerCase_def lower_char_def)

subsection \<open>Completions that are not a 200\<close>

text \<open>
  Claim C10. For events none of which is at ready state 4 with status 200, whatever the
  rules are, the trace is one call of the caller's handler per event, with the fields of
  the event unchanged, and no hook call; without a handler it is empty.
\<close>

theorem pipeline_needs_200:
  assumes "\<forall>e \<in> set es. \<not> (readyState e = 4 \<and> status e = 200)"
  shows "dispatch nr pg cfs x body es = Some (if onreadystatechange x then map Fire es else [])"
  using assms by (induction es) (auto simp: onreadystatechange_wrapper_def)

text \<open>
  An instance: a completion with status 201 from the URL and with the method of
  \<open>rule0\<close>, which has all three response hooks.
\<close>

theorem pipeline_needs_200_witness:
  "dispatch (\<lambda>m u d. None) demo_page [rule0] caller JUndefined
     [created\<lparr>responseURL := ''https://example.com/api/data''\<rparr>] =
   Some [Fire (created\<lparr>responseURL := ''https://example.com/api/data''\<rparr>)]"
proof -
  have h: "\<forall>e \<in> set [created\<lparr>responseURL := ''https://example.com/api/data''\<rparr>].
             \<not> (readyState e = 4 \<and> status e = 200)"
    by (simp add: created_def ok_def)
  from pipeline_needs_200 [OF h, of "\<lambda>m u d. None" demo_page "[rule0]" caller JUndefined]
  show ?thesis
    by (simp only: caller_facts if_True list.map)
qed

subsection \<open>Headers after a URL override\<close>

lemma fold_reapply_native:
  "native_headers (fold reapply hs y) =
     native_headers y @ map snd (filter (\<lambda>h. toLowerCase (fst (snd h)) \<noteq> ''content-length'') hs)"
proof (induction hs arbitrary: y)
  case Nil
  then show ?case by simp
next
  case (Cons h hs)
  have "native_headers (reapply h y) =
          native_headers y @ (if toLowerCase (fst (snd h)) \<noteq> ''content-length'' then [snd h] else [])"
    by (simp add: reapply_def setRequestHeader_def originalSetRequestHeader_def split: option.splits)
  with Cons.IH [of "reapply h y"] show ?case by simp
qed

lemma fold_reapply_target:
  "native_target (fold reapply hs y) = native_target y"
proof (induction hs arbitrary: y)
  case Nil
  then show ?case by simp
next
  case (Cons h hs)
  have "native_target (reapply h y) = native_target y"
    by (simp add: reapply_def setRequestHeader_def originalSetRequestHeader_def split: option.splits)
  with Cons.IH [of "reapply h y"] show ?case by simp
qed

lemma beforeSend_skip:
  assumes "\<forall>c \<in> set before. \<not> matches pg (requestUrl pg x) (xhr_method x) c"
  shows "beforeSend pg i (before @ cs) x body = beforeSend pg (i + length before) cs x body"
  using assms by (induction before arbitrary: i) auto

text \<open>
  The header map after headers with different lower-cased names have been set on an
  object whose map held other names: the old entries, then one entry per header, with
  the name and the value as given.
\<close>

lemma Map_set_new: "k \<notin> fst ` set cur \<Longrightarrow> Map_set k v cur = cur @ [(k, v)]"
  by (induction cur) auto

lemma captured_headers:
  assumes "requestHeaders y = Some cur"
    and "distinct (map fst cur @ map (\<lambda>h. toLowerCase (fst h)) hs)"
  shows "requestHeaders (fold (\<lambda>h. setRequestHeader (fst h) (snd h)) hs y) =
           Some (cur @ map (\<lambda>h. (toLowerCase (fst h), fst h, snd h)) hs)"
  using assms
proof (induction hs arbitrary: y cur)
  case Nil
  then show ?case by simp
next
  case (Cons h hs)
  from Cons.prems(2) have new: "toLowerCase (fst h) \<notin> fst ` set cur"
    by auto
  have 1: "requestHeaders (setRequestHeader (fst h) (snd h) y) =
             Some (cur @ [(toLowerCase (fst h), fst h, snd h)])"
    using Cons.prems(1) by (simp add: setRequestHeader_def originalSetRequestHeader_def Map_set_new [OF new])
  have 2: "distinct (map fst (cur @ [(toLowerCase (fst h), fst h, snd h)]) @
                     map (\<lambda>h. toLowerCase (fst h)) hs)"
    using Cons.prems(2) by auto
  from Cons.IH [OF 1 2] show ?case by simp
qed

text \<open>
  Claim C6. Let the first rule that matches a request have a \<^verbatim>\<open>beforeSendCallback\<close> that
  returns a URL, and let \<open>captured\<close> be the entries of the header map at that moment.
  Then the request goes on, the native object has been opened again with the method of
  the request and the new URL, and the headers it has been given since are the captured
  names and values, in the map's order, without those whose lower-cased name is
  \<^verbatim>\<open>content-length\<close>. When the map was empty and the caller then set the headers \<open>hs\<close>,
  no two with the same lower-cased name, these are the headers of \<open>hs\<close> but
  \<^verbatim>\<open>content-length\<close>, each as the caller wrote it.
\<close>

theorem reopen_keeps_headers:
  assumes "\<forall>c \<in> set before. \<not> matches pg (requestUrl pg x) (xhr_method x) c"
    and "matches pg (requestUrl pg x) (xhr_method x) config"
    and "beforeSendCallback config = Some cb"
    and "new_URL pg (requestUrl pg x) = Some u"
    and "cb \<lparr>req_url = u, req_data = body\<rparr> = Some r"
    and "bs_url r = Some newUrl"
    and "requestHeaders x = Some captured"
  shows "\<exists>x' body'. snd (beforeSend pg 0 (before @ config # rest) x body) = Some (x', body') \<and>
           native_target x' = Some (the_method x, href newUrl) \<and>
           native_headers x' =
             map snd (filter (\<lambda>h. toLowerCase (fst (snd h)) \<noteq> ''content-length'') captured) \<and>
           (\<forall>y hs. requestHeaders y = Some [] \<and>
                   x = fold (\<lambda>h. setRequestHeader (fst h) (snd h)) hs y \<and>
                   distinct (map (\<lambda>h. toLowerCase (fst h)) hs) \<longrightarrow>
                   native_headers x' = filter (\<lambda>h. toLowerCase (fst h) \<noteq> ''content-length'') hs)"
proof -
  have b: "beforeSend pg 0 (before @ config # rest) x body =
          beforeSend pg (length before) (config # rest) x body"
    using beforeSend_skip [OF assms(1), of 0] by simp
  have s: "\<And>y hs. requestHeaders y = Some [] \<Longrightarrow>
             x = fold (\<lambda>h. setRequestHeader (fst h) (snd h)) hs y \<Longrightarrow>
             distinct (map (\<lambda>h. toLowerCase (fst h)) hs) \<Longrightarrow>
             map snd (filter (\<lambda>h. toLowerCase (fst (snd h)) \<noteq> ''content-length'') captured) =
               filter (\<lambda>h. toLowerCase (fst h) \<noteq> ''content-length'') hs"
  proof -
    fix y hs
    assume y: "requestHeaders y = Some []"
      and x: "x = fold (\<lambda>h. setRequestHeader (fst h) (snd h)) hs y"
      and d: "distinct (map (\<lambda>h. toLowerCase (fst h)) hs)"
    from captured_headers [OF y, of hs] d x assms(7)
    have "captured = map (\<lambda>h. (toLowerCase (fst h), fst h, snd h)) hs"
      by simp
    then show "map snd (filter (\<lambda>h. toLowerCase (fst (snd h)) \<noteq> ''content-length'') captured) =
               filter (\<lambda>h. toLowerCase (fst h) \<noteq> ''content-length'') hs"
      by (simp add: filter_map comp_def)
  qed
  from b assms(2-7) obtain x' body'
    where 1: "snd (beforeSend pg 0 (before @ config # rest) x body) = Some (x', body')"
      and 2: "native_target x' = Some (the_method x, href newUrl)"
      and 3: "native_headers x' =
             map snd (filter (\<lambda>h. toLowerCase (fst (snd h)) \<noteq> ''content-length'') captured)"
    by (simp add: reopen_def fold_reapply_native fold_reapply_target originalXHRopen_apply_def Let_def)
  have 4: "\<forall>y hs. requestHeaders y = Some [] \<and>
                   x = fold (\<lambda>h. setRequestHeader (fst h) (snd h)) hs y \<and>
                   distinct (map (\<lambda>h. toLowerCase (fst h)) hs) \<longrightarrow>
                   native_headers x' = filter (\<lambda>h. toLowerCase (fst h) \<noteq> ''content-length'') hs"
  proof (intro allI impI, elim conjE)
    fix y hs
    assume "requestHeaders y = Some []"
      and "x = fold (\<lambda>h. setRequestHeader (fst h) (snd h)) hs y"
      and "distinct (map (\<lambda>h. toLowerCase (fst h)) hs)"
    then have "map snd (filter (\<lambda>h. toLowerCase (fst (snd h)) \<noteq> ''content-length'') captured) =
               filter (\<lambda>h. toLowerCase (fst h) \<noteq> ''content-length'') hs"
      by (rule s)
    with 3 show "native_headers x' = filter (\<lambda>h. toLowerCase (fst h) \<noteq> ''content-length'') hs"
      by (rule trans)
  qed
  from 1 2 3 4 show ?thesis
    by (intro exI conjI)
qed

text \<open>
  An instance: the caller has set \<^verbatim>\<open>X-Token\<close> and \<^verbatim>\<open>Content-Length\<close>, the first rule does
  not match, the second adds a query to the URL.
\<close>

theorem reopen_keeps_headers_witness:
  "\<exists>x' body'. snd (beforeSend demo_page 0 [ruleB, ruleU] caller_with_headers JUndefined) = Some (x', body') \<and>
      native_target x' = Some (''GET'', ''https://example.com/api/data?token=1'') \<and>
      native_headers x' = [(''X-Token'', ''abc'')]"
proof -
  have 1: "\<forall>c \<in> set [ruleB]. \<not> matches demo_page (requestUrl demo_page caller_with_headers)
             (xhr_method caller_with_headers) c"
    by (simp add: matches_def isTargetUrl_def ruleB_def demo_page_def)
  have 2: "matches demo_page (requestUrl demo_page caller_with_headers)
             (xhr_method caller_with_headers) ruleU"
    by (simp add: caller_facts matches_def isTargetUrl_def isMethodEqual_def data_url ruleU_def
        toLowerCase_def lower_char_def)
  have 3: "beforeSendCallback ruleU =
             Some (\<lambda>ri. Some \<lparr>bs_url = Some ((req_url ri)\<lparr>href := href (req_url ri) @ ''?token=1''\<rparr>),
                               bs_data = JUndefined\<rparr>)"
    by (simp add: ruleU_def)
  have 4: "new_URL demo_page (requestUrl demo_page caller_with_headers) =
             Some \<lparr>protocol = ''https:'', host = ''example.com'', pathname = ''/api/data'',
                    href = ''https://example.com/api/data''\<rparr>"
    by (simp add: caller_facts data_url)
  have 5: "(\<lambda>ri. Some \<lparr>bs_url = Some ((req_url ri)\<lparr>href := href (req_url ri) @ ''?token=1''\<rparr>),
                          bs_data = JUndefined\<rparr>)
              \<lparr>req_url = \<lparr>protocol = ''https:'', host = ''example.com'', pathname = ''/api/data'',
                          href = ''https://example.com/api/data''\<rparr>, req_data = JUndefined\<rparr> =
           Some \<lparr>bs_url = Some \<lparr>protocol = ''https:'', host = ''example.com'', pathname = ''/api/data'',
                          href = ''https://example.com/api/data?token=1''\<rparr>, bs_data = JUndefined\<rparr>"
    by simp
  have 6: "bs_url \<lparr>bs_url = Some \<lparr>protocol = ''https:'', host = ''example.com'', pathname = ''/api/data'',
                          href = ''https://example.com/api/data?token=1''\<rparr>, bs_data = JUndefined\<rparr> =
           Some \<lparr>protocol = ''https:'', host = ''example.com'', pathname = ''/api/data'',
                          href = ''https://example.com/api/data?token=1''\<rparr>"
    by simp
  have f: "map snd (filter (\<lambda>h. toLowerCase (fst (snd h)) \<noteq> ''content-length'')
             [(''x-token'', ''X-Token'', ''abc''), (''content-length'', ''Content-Length'', ''2'')]) =
           [(''X-Token'', ''abc'')]"
    by (simp add: toLowerCase_def lower_char_def)
  note th = reopen_keeps_headers [OF 1 2 3 4 5 6 caller_facts(8), of "[]",
      unfolded f caller_facts(7) append_Cons append_Nil URL.select_convs]
  from th show ?thesis
    by blast
qed


subsection \<open>A superseded request\<close>

lemma respond_quiet: "fires (fst (respond config i ri this)) = []"
  by (simp add: respond_def Let_def split: option.splits)

lemma respond_responseURL:
  "respond config i ri this = (log, Some this') \<Longrightarrow> responseURL this' = responseURL this"
  by (auto simp: respond_def Let_def split: option.splits)

lemma ask_quiet: "ask config i ri this = Some (pre, r) \<Longrightarrow> fires pre = []"
  by (auto simp: ask_def split: option.splits prod.splits)

lemma pipeline_reject:
  assumes "matches pg (responseURL this) (xhr_method x) c"
    and "genUrl pg (responseURL this) = Some u"
    and "preCallback c = Some cb"
    and "getResponseData this = Some d"
    and "cb d \<lparr>req_url = u, req_data = body\<rparr> = (False, nb)"
  shows "pipeline nr pg x body i (c # cs) this =
           map_option
             (\<lambda>t. (Call i Pre d #
                     concat (map (relay c i \<lparr>req_url = u, req_data = body\<rparr> (onreadystatechange x) this) t),
                   None))
             (nr (the_method x) (new_uri nb) (new_data nb))"
  using assms by (simp add: Let_def pipeline.simps ask_def)

lemma pipeline_step:
  assumes "matches pg (responseURL this) (xhr_method x) c"
    and "genUrl pg (responseURL this) = Some u"
  shows "pipeline nr pg x body i (c # cs) this =
           (case ask c i \<lparr>req_url = u, req_data = body\<rparr> this of
              None \<Rightarrow> Some ([Throw], None)
            | Some (pre, Some newBody) \<Rightarrow>
                map_option
                  (\<lambda>t. (pre @ concat (map (relay c i \<lparr>req_url = u, req_data = body\<rparr> (onreadystatechange x) this) t), None))
                  (nr (the_method x) (new_uri newBody) (new_data newBody))
            | Some (pre, None) \<Rightarrow>
                (case respond c i \<lparr>req_url = u, req_data = body\<rparr> this of
                   (log, None) \<Rightarrow> Some (pre @ log, None)
                 | (log, Some this') \<Rightarrow>
                     map_option (\<lambda>r. (pre @ log @ fst r, snd r))
                       (pipeline nr pg x body (Suc i) cs this')))"
  using assms by (simp add: Let_def pipeline.simps)

text \<open>
  When the loop gets through a list of rules (none of them refuses the response or
  throws), it has called no handler, the response URL is as it was, and on a longer
  list the loop goes on after them from the fields they left.
\<close>

lemma pipeline_through:
  assumes "pipeline nr pg x body i before this = Some (lb, Some this')"
  shows "fires lb = [] \<and> responseURL this' = responseURL this \<and>
         pipeline nr pg x body i (before @ cs) this =
           map_option (\<lambda>r. (lb @ fst r, snd r)) (pipeline nr pg x body (i + length before) cs this')"
  using assms
proof (induction before arbitrary: i this lb)
  case Nil
  then show ?case by (simp add: option.map_ident)
next
  case (Cons c before)
  show ?case
  proof (cases "matches pg (responseURL this) (xhr_method x) c")
    case False
    with Cons.prems have "pipeline nr pg x body (Suc i) before this = Some (lb, Some this')"
      by (simp add: pipeline.simps)
    from Cons.IH [OF this] False show ?thesis by (simp add: pipeline.simps)
  next
    case True
    from Cons.prems True obtain u where u: "genUrl pg (responseURL this) = Some u"
      by (cases "genUrl pg (responseURL this)") (auto simp: pipeline.simps)
    define ri where "ri = \<lparr>req_url = u, req_data = body\<rparr>"
    note step = pipeline_step [OF True u, of nr body i, folded ri_def]
    from Cons.prems obtain pre log this1 lb'
      where a: "ask c i ri this = Some (pre, None)"
        and r: "respond c i ri this = (log, Some this1)"
        and lb': "pipeline nr pg x body (Suc i) before this1 = Some (lb', Some this')"
        and lb: "lb = pre @ log @ lb'"
      unfolding step [of before]
      by (auto split: option.splits prod.splits)
    from respond_quiet [of c i ri this] r have lq: "fires log = []" by simp
    from Cons.IH [OF lb'] show ?thesis
      using step [of "before @ cs"] a r lb lq ask_quiet [OF a] respond_responseURL [OF r]
      by (simp add: option.map_comp comp_def)
  qed
qed

lemma completed_fires:
  "readyState nf = 4 \<Longrightarrow> readable nf \<Longrightarrow>
     \<exists>f. fires (completed config i ri True this nf) = [f] \<and> superseded config ri f nf"
  "readyState nf \<noteq> 4 \<or> \<not> readable nf \<Longrightarrow> fires (completed config i ri True this nf) = []"
  by (auto simp: completed_def superseded_def readable_def getResponseData_def read_responseText_def
      read_responseXML_def as_XMLHttpRequest_def Let_def split: option.splits if_splits)

lemma relay_fires:
  "list_all2 (superseded config ri) (fires (concat (map (relay config i ri True this) t)))
     (filter readable (completions t))"
proof (induction t)
  case Nil
  then show ?case by (simp add: completions_def)
next
  case (Cons it t)
  show ?case
  proof (cases it)
    case (Fire nf)
    show ?thesis
    proof (cases "readyState nf = 4 \<and> readable nf")
      case True
      from completed_fires(1) [of nf config i ri this] True obtain f
        where "fires (completed config i ri True this nf) = [f]" "superseded config ri f nf"
        by blast
      with Cons Fire True show ?thesis
        by (simp add: relay_def completions_def)
    next
      case False
      then have "fires (completed config i ri True this nf) = []"
        using completed_fires(2) [of nf config i ri this] by blast
      with Cons Fire False show ?thesis
        by (auto simp: relay_def completions_def)
    qed
  next
    case (Call j h d)
    with Cons show ?thesis by (simp add: relay_def completions_def)
  next
    case Throw
    with Cons show ?thesis by (simp add: relay_def completions_def)
  qed
qed

text \<open>
  The handler of a request is called at most once at ready state 4: by the wrapper of
  \<^verbatim>\<open>send\<close> when the transport its superseding requests go through does so and the
  native transport has at most one such event, hence by the wrapped transport at every
  depth of supersession.
\<close>

lemma completions_simps [simp]:
  "completions [] = []"
  "completions (Fire f # t) = (if readyState f = 4 then f # completions t else completions t)"
  "completions (Call i h d # t) = completions t"
  "completions (Throw # t) = completions t"
  "completions (s @ t) = completions s @ completions t"
  by (simp_all add: completions_def)

lemma completions_quiet: "fires t = [] \<Longrightarrow> completions t = []"
  by (simp add: completions_def)

lemma beforeSend_quiet: "fires (fst (beforeSend pg i cfs x body)) = []"
  by (induction cfs arbitrary: i) (auto simp: Let_def split: option.splits)

lemma relay_at_most:
  "length (fires (concat (map (relay config i ri True this) t))) \<le> length (completions t)"
proof -
  have "length (fires (concat (map (relay config i ri True this) t))) =
          length (filter readable (completions t))"
    using relay_fires [of config ri i this t] by (rule list_all2_lengthD)
  then show ?thesis by simp
qed

lemma relay_silent:
  "fires (concat (map (relay config i ri False this) t)) = []"
proof (induction t)
  case Nil
  then show ?case by simp
next
  case (Cons it t)
  have "fires (relay config i ri False this it) = []"
    by (cases it) (auto simp: relay_def completed_def Let_def split: option.splits)
  with Cons show ?case by simp
qed

lemma pipeline_at_most:
  assumes "at_most_once nr" and "pipeline nr pg x body i cfs this = Some (lb, fin)"
  shows "(case fin of Some this' \<Rightarrow> fires lb = [] | None \<Rightarrow> length (fires lb) \<le> 1)"
  using assms(2)
proof (induction cfs arbitrary: i this lb)
  case Nil
  then show ?case by auto
next
  case (Cons c cfs)
  show ?case
  proof (cases "matches pg (responseURL this) (xhr_method x) c")
    case False
    with Cons show ?thesis by (simp add: pipeline.simps)
  next
    case True
    show ?thesis
    proof (cases "genUrl pg (responseURL this)")
      case None
      with True Cons.prems show ?thesis by (auto simp: pipeline.simps)
    next
      case (Some u)
      define ri where "ri = \<lparr>req_url = u, req_data = body\<rparr>"
      note step = pipeline_step [OF True Some, of nr body i cfs, folded ri_def]
      show ?thesis
      proof (cases "ask c i ri this")
        case None
        with Cons.prems step show ?thesis by auto
      next
        case asked: (Some a)
        obtain pre r where a: "a = (pre, r)" by (cases a)
        from asked a have pq: "fires pre = []" by (auto intro: ask_quiet)
        show ?thesis
        proof (cases r)
          case (Some nb)
          with Cons.prems step asked a obtain t
            where t: "nr (the_method x) (new_uri nb) (new_data nb) = Some t"
              and lb: "lb = pre @ concat (map (relay c i ri (onreadystatechange x) this) t)"
              and fin: "fin = None"
            by auto
          from assms(1) t have "length (completions t) \<le> 1"
            by (auto simp: at_most_once_def)
          moreover have "length (fires (concat (map (relay c i ri (onreadystatechange x) this) t)))
                           \<le> length (completions t)"
            using relay_at_most [of c i ri this t] relay_silent [of c i ri this t]
            by (cases "onreadystatechange x") simp_all
          ultimately show ?thesis using lb fin pq by simp
        next
          case None
          obtain log r' where resp: "respond c i ri this = (log, r')"
            by (cases "respond c i ri this")
          from respond_quiet [of c i ri this] resp have lq: "fires log = []" by simp
          show ?thesis
          proof (cases r')
            case rn: None
            with Cons.prems step asked a None resp pq lq show ?thesis by auto
          next
            case (Some this1)
            with Cons.prems step asked a None resp obtain lb'
              where lb': "pipeline nr pg x body (Suc i) cfs this1 = Some (lb', fin)"
                and lb: "lb = pre @ log @ lb'"
              by auto
            from Cons.IH [OF lb'] lb pq lq show ?thesis
              by (cases fin) simp_all
          qed
        qed
      qed
    qed
  qed
qed

lemma wrapper_at_most:
  assumes "at_most_once nr" and "onreadystatechange_wrapper nr pg cfs x body e = Some t"
  shows "length (completions t) \<le> (if readyState e = 4 then 1 else 0)"
proof (cases "readyState e = 4 \<and> status e = 200")
  case False
  with assms(2) show ?thesis
    by (auto simp: onreadystatechange_wrapper_def split: if_splits)
next
  case True
  with assms(2) obtain lb fin where p: "pipeline nr pg x body 0 cfs e = Some (lb, fin)"
    and t: "t = lb @ (case fin of Some this' \<Rightarrow> if onreadystatechange x then [Fire this'] else [] | None \<Rightarrow> [])"
    by (auto simp: onreadystatechange_wrapper_def)
  have "length (completions t) \<le> length (fires t)"
    by (simp add: completions_def)
  moreover have "length (fires t) \<le> 1"
    using pipeline_at_most [OF assms(1) p] t by (auto split: option.splits)
  ultimately show ?thesis using True by simp
qed

lemma dispatch_at_most:
  assumes "at_most_once nr" and "dispatch nr pg cfs x body es = Some t"
  shows "length (completions t) \<le> length (filter (\<lambda>e. readyState e = 4) es)"
  using assms(2)
proof (induction es arbitrary: t)
  case Nil
  then show ?case by simp
next
  case (Cons e es)
  from Cons.prems obtain t1 t2 where t1: "onreadystatechange_wrapper nr pg cfs x body e = Some t1"
    and t2: "dispatch nr pg cfs x body es = Some t2" and t: "t = t1 @ t2"
    by (auto split: option.splits)
  from wrapper_at_most [OF assms(1) t1] Cons.IH [OF t2] t show ?case
    by (auto split: if_splits)
qed

lemma xhr_send_at_most:
  assumes "at_most_once nr" and "completes_once pg" and "xhr_send nr pg cfs x body = Some t"
  shows "length (completions t) \<le> 1"
proof (cases "beforeSend pg 0 cfs x body")
  case (Pair log r)
  have q: "completions log = []"
    using beforeSend_quiet [of pg 0 cfs x body] Pair by (simp add: completions_quiet)
  show ?thesis
  proof (cases r)
    case None
    with Pair assms(3) q show ?thesis by (simp add: xhr_send_def)
  next
    case (Some xb)
    obtain x' body' where xb: "xb = (x', body')" by (cases xb)
    show ?thesis
    proof (cases "native_target x'")
      case None
      with Pair Some xb assms(3) q show ?thesis by (auto simp: xhr_send_def)
    next
      case (Some mu)
      obtain m u where mu: "mu = (m, u)" by (cases mu)
      from Pair \<open>r = Some xb\<close> xb Some mu assms(3) obtain t'
        where t': "dispatch nr pg cfs x' body'
                     (native_XHR pg \<lparr>rq_method = m, rq_url = u, rq_headers = native_headers x', rq_body = body'\<rparr>) = Some t'"
          and t: "t = log @ t'"
        by (auto simp: xhr_send_def)
      from dispatch_at_most [OF assms(1) t'] assms(2) have "length (completions t') \<le> 1"
        unfolding completes_once_def
        by (meson le_trans)
      with t q show ?thesis by simp
    qed
  qed
qed

lemma hijacked_at_most:
  assumes "completes_once pg"
  shows "at_most_once (new_request (hijacked_send n pg cfs))"
proof (induction n)
  case 0
  have none: "at_most_once (\<lambda>m u d. None)"
    by (simp add: at_most_once_def)
  show ?case
    unfolding at_most_once_def
  proof (intro allI impI)
    fix m u d t
    assume "new_request (hijacked_send 0 pg cfs) m u d = Some t"
    then have "xhr_send (\<lambda>m u d. None) pg cfs
                 ((xhr_open m u new_XMLHttpRequest)\<lparr>onreadystatechange := True\<rparr>) d = Some t"
      by (simp add: new_request_def)
    from xhr_send_at_most [OF none assms this] show "length (completions t) \<le> 1" .
  qed
next
  case (Suc n)
  show ?case
    unfolding at_most_once_def
  proof (intro allI impI)
    fix m u d t
    assume "new_request (hijacked_send (Suc n) pg cfs) m u d = Some t"
    then have "xhr_send (new_request (hijacked_send n pg cfs)) pg cfs
                 ((xhr_open m u new_XMLHttpRequest)\<lparr>onreadystatechange := True\<rparr>) d = Some t"
      by (simp add: new_request_def)
    from xhr_send_at_most [OF Suc assms this] show "length (completions t) \<le> 1" .
  qed
qed

text \<open>
  Claim C1. Take a completion with ready state 4 and status 200 of a request whose caller
  has a handler. Let the rules registered before \<open>config\<close> let the completion through,
  leaving the fields \<open>this'\<close>; let \<open>config\<close> match, the response data \<open>d\<close> be readable and
  its \<^verbatim>\<open>preCallback\<close> answer \<^verbatim>\<open>[false, {uri: U, data: D}]\<close>; and let the new request to \<open>U\<close>
  with body \<open>D\<close> and the method of the original request, made through the transport in
  place, return with the trace \<open>t\<close>. Then the wrapper's trace exists, and the calls of the
  caller's handler in it are, one for one and in order, the completions of the new request
  in \<open>t\<close> whose \<^verbatim>\<open>responseText\<close> and \<^verbatim>\<open>responseXML\<close> can be read, each read with the status,
  status text and body of that completion (the body as \<^verbatim>\<open>lastCallback\<close> rewrites it, when
  the rule has one). So the handler is never called for the first response; it is not
  called at all when the new request has no such completion, it is called exactly once
  when the new request has exactly one, and never twice when the transport completes a
  request at most once.
\<close>

theorem superseded_completion:
  assumes "readyState this = 4" and "status this = 200"
    and "pipeline nr pg x body 0 before this = Some (lb, Some this')"
    and "matches pg (responseURL this) (xhr_method x) config"
    and "genUrl pg (responseURL this) = Some u"
    and "preCallback config = Some cb"
    and "getResponseData this' = Some d"
    and "cb d \<lparr>req_url = u, req_data = body\<rparr> = (False, \<lparr>new_uri = U, new_data = D\<rparr>)"
    and "nr (the_method x) U D = Some t"
    and "onreadystatechange x"
  shows "\<exists>tr. onreadystatechange_wrapper nr pg (before @ config # rest) x body this = Some tr \<and>
           list_all2 (superseded config \<lparr>req_url = u, req_data = body\<rparr>) (fires tr)
             (filter readable (completions t)) \<and>
           (filter readable (completions t) = [] \<longrightarrow> fires tr = []) \<and>
           (\<forall>nf. filter readable (completions t) = [nf] \<longrightarrow>
              (\<exists>f. fires tr = [f] \<and> superseded config \<lparr>req_url = u, req_data = body\<rparr> f nf)) \<and>
           (at_most_once nr \<longrightarrow> length (fires tr) \<le> 1)"
proof -
  define ri where "ri = \<lparr>req_url = u, req_data = body\<rparr>"
  define tr where "tr = lb @ Call (length before) Pre d #
                     concat (map (relay config (length before) ri True this') t)"
  from pipeline_through [OF assms(3), of "config # rest"]
  have q: "fires lb = []" and r: "responseURL this' = responseURL this"
    and p: "pipeline nr pg x body 0 (before @ config # rest) this =
              map_option (\<lambda>r. (lb @ fst r, snd r))
                (pipeline nr pg x body (length before) (config # rest) this')"
    by simp_all
  have s: "pipeline nr pg x body (length before) (config # rest) this' =
             Some (Call (length before) Pre d #
                     concat (map (relay config (length before) ri True this') t), None)"
    using pipeline_reject [of pg this' x config u cb d body "\<lparr>new_uri = U, new_data = D\<rparr>" nr "length before" rest]
      assms(4-10) r by (simp add: ri_def)
  have w: "onreadystatechange_wrapper nr pg (before @ config # rest) x body this = Some tr"
    using assms(1,2) by (simp add: onreadystatechange_wrapper_def p s tr_def)
  have f: "fires tr = fires (concat (map (relay config (length before) ri True this') t))"
    using q by (simp add: tr_def)
  have l: "list_all2 (superseded config ri) (fires tr) (filter readable (completions t))"
    unfolding f by (rule relay_fires)
  from l have n: "length (fires tr) = length (filter readable (completions t))"
    by (rule list_all2_lengthD)
  have e: "filter readable (completions t) = [] \<longrightarrow> fires tr = []"
  proof
    assume "filter readable (completions t) = []"
    with l show "fires tr = []" by simp
  qed
  have o: "\<forall>nf. filter readable (completions t) = [nf] \<longrightarrow>
             (\<exists>f. fires tr = [f] \<and> superseded config ri f nf)"
  proof (intro allI impI)
    fix nf
    assume "filter readable (completions t) = [nf]"
    with l have "list_all2 (superseded config ri) (fires tr) [nf]" by simp
    then show "\<exists>f. fires tr = [f] \<and> superseded config ri f nf"
      by (auto simp: list_all2_Cons2)
  qed
  have m: "at_most_once nr \<longrightarrow> length (fires tr) \<le> 1"
  proof
    assume "at_most_once nr"
    with assms(9) have "length (completions t) \<le> 1"
      by (auto simp: at_most_once_def)
    moreover have "length (filter readable (completions t)) \<le> length (completions t)"
      by (rule length_filter_le)
    ultimately show "length (fires tr) \<le> 1"
      unfolding n by (rule order_trans [rotated])
  qed
  from w l e o m show ?thesis
    unfolding ri_def by blast
qed

text \<open>
  Under the same conditions, as long as the new request has not returned neither has the
  wrapper: nothing is handed to the caller in the meantime.
\<close>

lemma superseded_pending:
  assumes "readyState this = 4" and "status this = 200"
    and "pipeline nr pg x body 0 before this = Some (lb, Some this')"
    and "matches pg (responseURL this) (xhr_method x) config"
    and "genUrl pg (responseURL this) = Some u"
    and "preCallback config = Some cb"
    and "getResponseData this' = Some d"
    and "cb d \<lparr>req_url = u, req_data = body\<rparr> = (False, \<lparr>new_uri = U, new_data = D\<rparr>)"
    and "nr (the_method x) U D = None"
  shows "onreadystatechange_wrapper nr pg (before @ config # rest) x body this = None"
proof -
  from pipeline_through [OF assms(3), of "config # rest"]
  have r: "responseURL this' = responseURL this"
    and p: "pipeline nr pg x body 0 (before @ config # rest) this =
              map_option (\<lambda>r. (lb @ fst r, snd r))
                (pipeline nr pg x body (length before) (config # rest) this')"
    by simp_all
  have s: "pipeline nr pg x body (length before) (config # rest) this' = None"
    using pipeline_reject [of pg this' x config u cb d body "\<lparr>new_uri = U, new_data = D\<rparr>" nr "length before" rest]
      assms(4-9) r by simp
  show ?thesis
    using assms(1,2) by (simp add: onreadystatechange_wrapper_def p s)
qed

subsection \<open>Responses that cannot be read or rebuilt\<close>

text \<open>
  When \<^verbatim>\<open>getResponseData(this)\<close> throws for a matching rule, no hook of that rule or of a
  later one is called and the caller's handler is not called for that event; a response
  of type \<^verbatim>\<open>blob\<close> is such a case. On the modern transport a \<^verbatim>\<open>lastCallback\<close> that returns
  a body for a response with a null-body status makes the promise reject.
\<close>

lemma unreadable_response_stops_the_loop:
  assumes "matches pg (responseURL this) (xhr_method x) c"
    and "genUrl pg (responseURL this) = Some u"
    and "getResponseData this = None"
  shows "pipeline nr pg x body i (c # cs) this = Some ([Throw], None)"
  using assms
  by (simp add: pipeline_step ask_def respond_def split: option.splits)

lemma unreadable_response_is_not_delivered:
  assumes "readyState this = 4" and "status this = 200"
    and "matches pg (responseURL this) (xhr_method x) c"
    and "genUrl pg (responseURL this) = Some u"
    and "responseType this = ''blob''" and "\<not> text_redefined this"
  shows "onreadystatechange_wrapper nr pg (c # cs) x body this = Some [Throw]"
proof -
  from assms(5,6) have "getResponseData this = None"
    by (simp add: getResponseData_def read_responseText_def)
  from unreadable_response_stops_the_loop [OF assms(3,4) this] assms(1,2) show ?thesis
    by (simp add: onreadystatechange_wrapper_def)
qed

lemma null_body_status_rejects:
  assumes "matches pg (resp_url resp) (Some m) c"
    and "genUrl pg (resp_url resp) = Some u"
    and "lastCallback c = Some cb"
    and "resp_status resp = 204 \<or> resp_status resp = 205 \<or> resp_status resp = 304"
    and "\<And>d ri. cb d ri \<noteq> JUndefined"
  shows "snd (fetch_respond pg m body resp i (c # cs)) = None"
proof -
  have s: "JSON_stringify v \<noteq> JUndefined" if "v \<noteq> JUndefined" for v
    using that by (cases v) (simp_all add: JSON_stringify_def)
  have "(case v of JStr s \<Rightarrow> JStr s | _ \<Rightarrow> JSON_stringify v) \<noteq> JUndefined"
    if "v \<noteq> JUndefined" for v
    using that s [of v] by (cases v) simp_all
  with assms show ?thesis
    by (auto simp: Let_def new_Response_def split: option.splits)
qed

text \<open>
  An instance: the completion of \<^verbatim>\<open>/api/data\<close> under \<open>rule0\<close>, with the wrappers installed.
  The new request completes once, with status 201.
\<close>

theorem superseded_completion_witness:
  "\<exists>tr. onreadystatechange_wrapper (new_request (hijacked_send 0 demo_page [rule0])) demo_page [rule0]
          caller JUndefined (ok ''https://example.com/api/data'' (JStr ''first'')) = Some tr \<and>
        list_all2
          (superseded rule0
             \<lparr>req_url = \<lparr>protocol = ''https:'', host = ''example.com'', pathname = ''/api/data'',
                         href = ''https://example.com/api/data''\<rparr>, req_data = JUndefined\<rparr>)
          (fires tr) [created] \<and>
        (\<exists>f. fires tr = [f] \<and>
           superseded rule0
             \<lparr>req_url = \<lparr>protocol = ''https:'', host = ''example.com'', pathname = ''/api/data'',
                         href = ''https://example.com/api/data''\<rparr>, req_data = JUndefined\<rparr> f created) \<and>
        length (fires tr) \<le> 1"
proof -
  let ?nr = "new_request (hijacked_send 0 demo_page [rule0])"
  let ?ev = "ok ''https://example.com/api/data'' (JStr ''first'')"
  have 1: "readyState ?ev = 4" and 2: "status ?ev = 200"
    by (simp_all add: ok_def)
  have 3: "pipeline ?nr demo_page caller JUndefined 0 [] ?ev = Some ([], Some ?ev)"
    by simp
  have 4: "matches demo_page (responseURL ?ev) (xhr_method caller) rule0"
    by (simp add: caller_facts matches_def isTargetUrl_def isMethodEqual_def data_url rule0_def ok_def)
  have 5: "genUrl demo_page (responseURL ?ev) =
             Some \<lparr>protocol = ''https:'', host = ''example.com'', pathname = ''/api/data'',
                    href = ''https://example.com/api/data''\<rparr>"
    by (simp add: genUrl_def startsWith_def ok_def data_url)
  have 6: "preCallback rule0 =
             Some (\<lambda>d ri. (False, \<lparr>new_uri = ''https://example.com/api/redirect'', new_data = JStr ''D''\<rparr>))"
    by (simp add: rule0_def)
  have 7: "getResponseData ?ev = Some (JStr ''first'')"
    by (simp add: getResponseData_def read_responseText_def ok_def)
  have 8: "(\<lambda>d ri. (False, \<lparr>new_uri = ''https://example.com/api/redirect'', new_data = JStr ''D''\<rparr>))
             (JStr ''first'')
             \<lparr>req_url = \<lparr>protocol = ''https:'', host = ''example.com'', pathname = ''/api/data'',
                         href = ''https://example.com/api/data''\<rparr>, req_data = JUndefined\<rparr> =
           (False, \<lparr>new_uri = ''https://example.com/api/redirect'', new_data = JStr ''D''\<rparr>)"
    by simp
  have 9: "?nr (the_method caller) ''https://example.com/api/redirect'' (JStr ''D'') =
             Some [Fire ((ok ''https://example.com/api/redirect'' (JStr []))\<lparr>readyState := 2\<rparr>),
                   Fire created]"
    by (simp add: caller_facts new_request_def xhr_send_def caller_ev requestUrl_def startsWith_def
        matches_def isTargetUrl_def isMethodEqual_def rule0_def demo_page_def demo_XHR_def
        onreadystatechange_wrapper_def created_def ok_def url_ev)
  have c: "filter readable
             (completions [Fire ((ok ''https://example.com/api/redirect'' (JStr []))\<lparr>readyState := 2\<rparr>),
                           Fire created]) = [created]"
    by (simp add: completions_def readable_def read_responseText_def read_responseXML_def
        created_def ok_def)
  have "completes_once demo_page"
    by (simp add: completes_once_def page_facts demo_XHR_def created_def ok_def)
  then have once: "at_most_once ?nr"
    by (rule hijacked_at_most)
  note th = superseded_completion [OF 1 2 3 4 5 6 7 8 9 caller_facts(4), of "[]", unfolded c append_Nil]
  from th once show ?thesis
    by blast
qed

text \<open>
  The handler need not be called at all. Under \<open>ruleX\<close> the completion of \<^verbatim>\<open>/api/data\<close> is
  refused and a new request to \<^verbatim>\<open>api/redirect\<close> is made. Its \<^verbatim>\<open>send\<close> is the wrapped one: the
  rule matches again, it has a \<^verbatim>\<open>beforeSendCallback\<close>, and \<^verbatim>\<open>new URL('api/redirect')\<close> of
  line 105 throws before anything is sent. The caller's handler has seen ready states 2
  and 3 of the first request and is never called with a completion.
\<close>

theorem superseding_call_may_throw:
  "map_option (\<lambda>t. (calls t, map readyState (fires t), completions t, last t))
     (hijacked_send 1 demo_page [ruleX] caller JUndefined) =
     Some ([(0, BeforeSend), (0, Pre)], [2, 3], [], Throw)"
  by code_simp

text \<open>
  Nor need the new request return. Under \<open>ruleR\<close> the new request goes to the URL of the
  first one, matches the rule again and is superseded in turn, without end: the wrapped
  \<^verbatim>\<open>send\<close> has no trace at any depth.
\<close>

lemma ruleR_again:
  assumes "nr ''GET'' ''/api/data'' JUndefined = None"
  shows "xhr_send nr demo_page [ruleR] caller JUndefined = None"
  using assms
  by (simp add: caller_facts xhr_send_def caller_ev requestUrl_def startsWith_def the_method_def
      matches_def isTargetUrl_def isMethodEqual_def ruleR_def demo_page_def demo_XHR_def
      onreadystatechange_wrapper_def ok_def url_ev genUrl_def ask_def getResponseData_def
      read_responseText_def pipeline.simps)

lemma self_superseding_never_returns:
  "hijacked_send n demo_page [ruleR] caller JUndefined = None"
proof (induction n)
  case 0
  show ?case by (simp add: ruleR_again)
next
  case (Suc n)
  have "new_request (hijacked_send n demo_page [ruleR]) ''GET'' ''/api/data'' JUndefined = None"
    using Suc by (simp add: new_request_def caller_def)
  then show ?case by (simp add: ruleR_again)
qed

text \<open>
  On a page whose native transport has at most one event at ready state 4 per request,
  the wrapped \<^verbatim>\<open>send\<close> calls the caller's handler at most once at ready state 4, whatever
  the rules are and however many requests supersede one another.
\<close>

theorem handler_completes_at_most_once:
  assumes "completes_once pg" and "hijacked_send n pg cfs x body = Some t"
  shows "length (completions t) \<le> 1"
proof (cases n)
  case 0
  have "at_most_once (\<lambda>m u d. None)"
    by (simp add: at_most_once_def)
  from xhr_send_at_most [OF this assms(1)] assms(2) 0 show ?thesis
    by simp
next
  case (Suc k)
  from xhr_send_at_most [OF hijacked_at_most [OF assms(1)] assms(1)] assms(2) Suc show ?thesis
    by simp
qed

theorem handler_completes_at_most_once_witness:
  "\<exists>t. hijacked_send 1 demo_page [rule0] caller JUndefined = Some t \<and> length (completions t) \<le> 1"
proof -
  have "completes_once demo_page"
    by (simp add: completes_once_def page_facts demo_XHR_def created_def ok_def)
  moreover have "hijacked_send 1 demo_page [rule0] caller JUndefined \<noteq> None"
    by code_simp
  then obtain t where "hijacked_send 1 demo_page [rule0] caller JUndefined = Some t"
    by blast
  ultimately show ?thesis
    using handler_completes_at_most_once [of demo_page 1 "[rule0]" caller JUndefined t]
    by blast
qed

section \<open>Every matching rule responds\<close>

text \<open>
  Claim C2 at a concrete input: two rules that both match \<^verbatim>\<open>GET
  https://example.com/api/data\<close>, the first with a \<^verbatim>\<open>callback\<close>, the second with all three
  response hooks, both with a pre-send hook. The response loops have no
  \<^verbatim>\<open>break\<close>: on the legacy transport \<^verbatim>\<open>preCallback\<close>, \<^verbatim>\<open>callback\<close> and \<^verbatim>\<open>lastCallback\<close> of the
  second rule are called after the \<^verbatim>\<open>callback\<close> of the first, on the modern transport its
  \<^verbatim>\<open>callback\<close> and \<^verbatim>\<open>lastCallback\<close>. Of the pre-send hooks only that of the first rule is
  called.
\<close>

theorem later_matching_rule_responds:
  "map_option calls (hijacked_send 0 demo_page [ruleF, ruleL] caller JUndefined) =
     Some [(0, BeforeSend), (0, Primary), (1, Pre), (1, Primary), (1, Last)] \<and>
   calls (fst (hijacked_fetch demo_page [ruleF, ruleL]
                 (InString ''https://example.com/api/data'') None)) =
     [(0, BeforeSend), (0, Primary), (1, Primary), (1, Last)]"
  by code_simp

section \<open>The body a post-response hook returns\<close>

text \<open>
  Claim C4 at a concrete input: a rule whose \<^verbatim>\<open>lastCallback\<close> returns the string
  \<^verbatim>\<open>patched\<close>. On the legacy transport the caller reads that string in \<^verbatim>\<open>response\<close> and the
  string in double quotes in \<^verbatim>\<open>responseText\<close>; on the modern transport the body is the
  string itself.
\<close>

theorem string_body_is_quoted_on_xhr:
  "map_option (\<lambda>t. map (\<lambda>f. (response f, responseText f)) (completions t))
     (hijacked_send 0 demo_page [ruleS] caller JUndefined) =
     Some [(JStr ''patched'', JStr (CHR 0x22 # ''patched'' @ [CHR 0x22]))] \<and>
   map_option resp_body (snd (hijacked_fetch demo_page [ruleS] (InString ''/api/data'') None)) =
     Some ''patched''"
  by code_simp

end
